theory Spec2Isabelle
  imports Complex_Main
begin

section \<open>Python strings\<close>

text \<open>
  A Python \<open>str\<close> is modelled as a \<open>string\<close> whose characters are the code points
  0..255.  On that range \<open>str.lower\<close> maps \<open>A..Z\<close> and the capital letters
  U+00C0..U+00DE (except the multiplication sign U+00D7) to the code point 32 above,
  and \<open>str.isspace\<close> holds for 9..13, 28..32, 133 and 160.
\<close>

definition lower_char :: "char \<Rightarrow> char" where
  "lower_char c =
     (let n = (of_char c :: nat)
      in if (65 \<le> n \<and> n \<le> 90) \<or> (192 \<le> n \<and> n \<le> 222 \<and> n \<noteq> 215)
         then char_of (n + 32) else c)"

definition lower :: "string \<Rightarrow> string" where
  "lower s = map lower_char s"

definition isspace :: "char \<Rightarrow> bool" where
  "isspace c =
     (let n = (of_char c :: nat)
      in (9 \<le> n \<and> n \<le> 13) \<or> (28 \<le> n \<and> n \<le> 32) \<or> n = 133 \<or> n = 160)"

definition isdigit :: "char \<Rightarrow> bool" where
  "isdigit c = (let n = (of_char c :: nat) in 48 \<le> n \<and> n \<le> 57)"

text \<open>\<open>s.strip()\<close>: leading and trailing whitespace removed.\<close>

definition strip :: "string \<Rightarrow> string" where
  "strip s = rev (dropWhile isspace (rev (dropWhile isspace s)))"

text \<open>
  \<open>s.split()\<close>: the maximal runs of non-whitespace characters, in order.  \<open>split_go\<close>
  carries the token read so far.
\<close>

fun split_go :: "string \<Rightarrow> string \<Rightarrow> string list" where
  "split_go cur [] = (if cur = [] then [] else [cur])"
| "split_go cur (c # cs) =
     (if isspace c then (if cur = [] then split_go [] cs else cur # split_go [] cs)
      else split_go (cur @ [c]) cs)"

definition split_ws :: "string \<Rightarrow> string list" where
  "split_ws s = split_go [] s"

definition startswith :: "string \<Rightarrow> string \<Rightarrow> bool" where
  "startswith s p = (take (length p) s = p)"

text \<open>
  \<open>s.split(":", 1)\<close> on a string that contains a colon: the text before the first
  colon and the text after it.  The translator only takes these apart on inputs that
  contain a colon (see \<open>startswith_colon\<close> below).
\<close>

definition before_colon :: "string \<Rightarrow> string" where
  "before_colon s = takeWhile (\<lambda>c. c \<noteq> CHR '':'') s"

definition after_colon :: "string \<Rightarrow> string" where
  "after_colon s = tl (dropWhile (\<lambda>c. c \<noteq> CHR '':'') s)"

section \<open>The shorthand translator: \<open>parse_custom_query\<close>\<close>

text \<open>
  The regular expression \<open>^(>=|>|<=|<)(\d+(?:\.\d+)?)$\<close> of the two-token range form.
  \<open>is_decimal\<close> is a full match of \<open>\d+(?:\.\d+)?\<close>; \<open>re_match_range\<close> tries the
  operators in the order of the alternation and returns the two groups.
\<close>

definition is_decimal :: "string \<Rightarrow> bool" where
  "is_decimal s =
     (let ds = takeWhile isdigit s; rest = dropWhile isdigit s
      in ds \<noteq> [] \<and>
         (rest = [] \<or>
          (hd rest = CHR ''.'' \<and> tl rest \<noteq> [] \<and> list_all isdigit (tl rest))))"

definition cmp_ops :: "string list" where
  "cmp_ops = [''>='', ''>'', ''<='', ''<'']"

definition re_match_range :: "string \<Rightarrow> (string \<times> string) option" where
  "re_match_range s =
     (case filter (\<lambda>op. startswith s op \<and> is_decimal (drop (length op) s)) cmp_ops of
        [] \<Rightarrow> None
      | op # _ \<Rightarrow> Some (op, drop (length op) s))"

definition range_stmt :: "string \<Rightarrow> string \<Rightarrow> string \<Rightarrow> string" where
  "range_stmt field op val =
     ''SELECT * FROM flattened_data WHERE '' @ field @ '' '' @ op @ '' '' @ val @ '';''"

text \<open>
  The \<open>range:\<close> branch.  With two tokens whose second one does not match the regular
  expression, control leaves the \<open>if\<close> without a \<open>return\<close>: the function returns
  Python's \<open>None\<close>, here \<open>None\<close>.
\<close>

definition parse_range :: "string list \<Rightarrow> string option" where
  "parse_range parts =
     (if length parts = 2 then
        (let field = parts ! 0
         in case re_match_range (parts ! 1) of
              Some (op, val) \<Rightarrow> Some (range_stmt field op val)
            | None \<Rightarrow> None)
      else if length parts = 3 then
        Some (range_stmt (parts ! 0) (parts ! 1) (parts ! 2))
      else Some ''SELECT 'Invalid range query' AS error;'')"

text \<open>
  The \<open>filter:\<close> branch: the operator and the value are cut from the third token, and
  one statement text is built from them.  Nothing inside its \<open>try\<close> block can raise
  (slices, \<open>split\<close>, \<open>startswith\<close> and unpacking a list of length three), so the \<open>except\<close>
  clause has no branch here.
\<close>

definition parse_filter :: "string list \<Rightarrow> string option" where
  \<open>parse_filter parts =
     (if length parts \<noteq> 3 then Some ''SELECT 'Invalid filter query format' AS error;''
      else
        (let email_term = parts ! 0; tech_term = parts ! 1; pop_expr = parts ! 2;
             sel = (if startswith pop_expr ''>='' then Some (''>='', drop 2 pop_expr)
                    else if startswith pop_expr ''>'' then Some (''>'', drop 1 pop_expr)
                    else if startswith pop_expr ''<='' then Some (''<='', drop 2 pop_expr)
                    else if startswith pop_expr ''<'' then Some (''<'', drop 1 pop_expr)
                    else None)
         in case sel of
              None \<Rightarrow> Some ''SELECT 'Invalid population expression' AS error;''
            | Some (op, pop_val) \<Rightarrow>
                Some (''SELECT * FROM flattened_data WHERE "emails" ILIKE '%'' @ email_term @
                      ''%' AND "tech_names" ILIKE '%'' @ tech_term @
                      ''%' AND pop_estimate_2022 '' @ op @ '' '' @ pop_val @ '';'')))\<close>

definition parse_crm :: "string \<Rightarrow> string option" where
  "parse_crm param =
     (if param = ''a'' then Some ''SELECT * FROM flattened_data WHERE sfdc_id IS NOT NULL;''
      else if param = ''b'' then
        Some ''SELECT * FROM flattened_data WHERE hubspot_id IS NOT NULL;''
      else if param = ''all'' then
        Some ''SELECT * FROM flattened_data WHERE sfdc_id IS NOT NULL OR hubspot_id IS NOT NULL;''
      else Some ''SELECT 'Invalid crm parameter' AS error;'')"

definition parse_custom_query :: "string \<Rightarrow> string option" where
  \<open>parse_custom_query user_query =
     (let lower_query = lower user_query
      in if startswith lower_query ''title:'' then
           (let term = strip (after_colon user_query)
            in Some (''SELECT * FROM flattened_data WHERE lower(title) ILIKE '%'' @
                     lower term @ ''%';''))
         else if startswith lower_query ''emails:'' then
           (let term = lower (strip (after_colon user_query))
            in Some (''SELECT * FROM flattened_data WHERE "emails" ILIKE '%'' @
                     term @ ''%';''))
         else if startswith lower_query ''range:'' then
           parse_range (split_ws (strip (drop 6 user_query)))
         else if startswith lower_query ''filter:'' then
           parse_filter (split_ws (strip (drop (length ''filter:'') user_query)))
         else if startswith lower_query ''crm:'' then
           parse_crm (lower (strip (after_colon user_query)))
         else if CHR '':'' \<in> set user_query then
           (let field = before_colon user_query; term = after_colon user_query
            in Some (''SELECT * FROM flattened_data WHERE '' @ strip field @
                     '' ILIKE '%'' @ lower (strip term) @ ''%';''))
         else Some (''SELECT * FROM flattened_data WHERE "document" @@ '' @
                    ''plainto_tsquery('english', '' @ [CHR 0x27] @ user_query @ ''');''))\<close>

section \<open>The interactive loop: \<open>interactive_postgres\<close>\<close>

text \<open>
  One turn of the loop chooses the statement to run: the translator's result when the
  input starts with a shorthand prefix or contains a colon, the input itself otherwise
  (the prompt reads "Type SQL or shorthand queries").  \<open>Translated\<close> statements are
  echoed after \<open>SQL:\<close>; \<open>statement_text\<close> is the value of \<open>sql_query\<close>.
\<close>

datatype statement = Translated "string option" | Raw string

fun statement_text :: "statement \<Rightarrow> string option" where
  "statement_text (Translated r) = r"
| "statement_text (Raw s) = Some s"

definition is_shorthand :: "string \<Rightarrow> bool" where
  "is_shorthand user_input =
     (startswith (lower user_input) ''title:'' \<or>
      startswith (lower user_input) ''emails:'' \<or>
      startswith (lower user_input) ''range:'' \<or>
      startswith (lower user_input) ''filter:'' \<or>
      startswith (lower user_input) ''crm:'' \<or>
      CHR '':'' \<in> set user_input)"

definition select_statement :: "string \<Rightarrow> statement" where
  "select_statement user_input =
     (if is_shorthand user_input then Translated (parse_custom_query user_input)
      else Raw user_input)"

text \<open>
  The backend is a parameter: \<open>exec db s\<close> runs the statement text \<open>s\<close> in the database
  state \<open>db\<close> and gives either the exception it raised or all the rows of
  \<open>result.fetchall()\<close>, with the next database state.  What a turn prints is its
  reply: \<open>Rows n shown\<close> for "Returned n rows." followed by the rows \<open>shown\<close>,
  \<open>BackendError e\<close> for "Error executing query: e", and \<open>NoStatement\<close> for the error
  printed when \<open>sql_query\<close> is \<open>None\<close> (\<open>text(None)\<close> raises inside the \<open>try\<close>).
\<close>

datatype ('e, 'row) reply = Rows nat "'row list" | BackendError 'e | NoStatement

record ('e, 'row) turn =
  stmt :: statement
  reply :: "('e, 'row) reply"

definition pg_turn ::
  "('db \<Rightarrow> string \<Rightarrow> ('e + 'row list) \<times> 'db) \<Rightarrow> 'db \<Rightarrow> string \<Rightarrow> ('e, 'row) turn \<times> 'db"
where
  "pg_turn exec db user_input =
     (let st = select_statement user_input
      in case statement_text st of
           None \<Rightarrow> (\<lparr>stmt = st, reply = NoStatement\<rparr>, db)
         | Some sql_query \<Rightarrow>
             (case exec db sql_query of
                (Inl e, db') \<Rightarrow> (\<lparr>stmt = st, reply = BackendError e\<rparr>, db')
              | (Inr rows, db') \<Rightarrow>
                  (\<lparr>stmt = st, reply = Rows (length rows) (take 10 rows)\<rparr>, db')))"

text \<open>
  The loop over the lines typed at the prompt; it ends at \<open>exit\<close>, \<open>quit\<close> or the end
  of the input (\<open>EOFError\<close>).  The result is the transcript of the turns.
\<close>

fun interactive_postgres ::
  "('db \<Rightarrow> string \<Rightarrow> ('e + 'row list) \<times> 'db) \<Rightarrow> 'db \<Rightarrow> string list \<Rightarrow> ('e, 'row) turn list"
where
  "interactive_postgres exec db [] = []"
| "interactive_postgres exec db (line # lines) =
     (let user_input = strip line
      in if lower user_input = ''exit'' \<or> lower user_input = ''quit'' then []
         else (case pg_turn exec db user_input of
                 (t, db') \<Rightarrow> t # interactive_postgres exec db' lines))"

section \<open>Data frames\<close>

text \<open>
  A \<open>DataFrame\<close> is its list of columns (name and dtype) and its rows, each row a list
  with one cell per column.  A cell is a text, a finite number (integers and floats,
  by their value), a timestamp (nanoseconds since the epoch), a Python list (what the
  aggregation of tag names produces) or a missing value (\<open>NaN\<close>, \<open>NaT\<close>, \<open>None\<close>).
  Equal cells are the cells that \<open>drop_duplicates\<close> and \<open>merge\<close> treat as equal: both
  take missing values as equal to each other.
\<close>

datatype dtype = ObjectT | NumberT | DatetimeT

datatype cell = Str string | Num rat | Stamp int | Lst "cell list" | Null

record frame =
  columns :: "(string \<times> dtype) list"
  rows :: "cell list list"

datatype error = KeyError string | AttributeError | ValueError

definition names :: "frame \<Rightarrow> string list" where
  "names f = map fst (columns f)"

text \<open>Every row of a data frame has one cell per column.\<close>

definition wf_frame :: "frame \<Rightarrow> bool" where
  "wf_frame f = list_all (\<lambda>r. length r = length (columns f)) (rows f)"

text \<open>\<open>df.empty\<close>: no column or no row.  \<open>pd.DataFrame()\<close> has neither.\<close>

definition df_empty :: "frame \<Rightarrow> bool" where
  "df_empty f = (columns f = [] \<or> rows f = [])"

definition empty_frame :: frame where
  "empty_frame = \<lparr>columns = [], rows = []\<rparr>"

text \<open>
  The cell of a row in the column \<open>col\<close> (the first column of that name), and the cells
  of a column.
\<close>

definition index_of :: "string \<Rightarrow> string list \<Rightarrow> nat" where
  "index_of col ns = length (takeWhile (\<lambda>n. n \<noteq> col) ns)"

definition cell_at :: "cell list \<Rightarrow> nat \<Rightarrow> cell" where
  "cell_at r k = (if k < length r then r ! k else Null)"

definition cell_of :: "frame \<Rightarrow> string \<Rightarrow> cell list \<Rightarrow> cell" where
  "cell_of f col r = cell_at r (index_of col (names f))"

definition column_cells :: "frame \<Rightarrow> string \<Rightarrow> cell list" where
  "column_cells f col = map (cell_of f col) (rows f)"

text \<open>\<open>df.columns = [col.lower() for col in df.columns]\<close>\<close>

definition lower_columns :: "frame \<Rightarrow> frame" where
  "lower_columns f = f\<lparr>columns := map (\<lambda>(n, d). (lower n, d)) (columns f)\<rparr>"

text \<open>
  \<open>map_cells h f\<close> rewrites every cell \<open>c\<close> of every row to \<open>h col c\<close>, where \<open>col\<close> is the
  cell's column.
\<close>

definition map_cells :: "(string \<times> dtype \<Rightarrow> cell \<Rightarrow> cell) \<Rightarrow> frame \<Rightarrow> frame" where
  "map_cells h f = f\<lparr>rows := map (\<lambda>r. map2 h (columns f) r) (rows f)\<rparr>"

text \<open>
  \<open>df[col].astype(str).str\<close> needs \<open>df[col]\<close> to be one column: a name that no column has
  raises \<open>KeyError\<close>, a name that several columns share selects a frame, which has no
  \<open>str\<close> accessor (\<open>AttributeError\<close>).  After \<open>astype(str)\<close> every value is a text.
\<close>

definition str_accessor :: "frame \<Rightarrow> string \<Rightarrow> error option" where
  "str_accessor f col =
     (if count_list (names f) col = 0 then Some (KeyError col)
      else if count_list (names f) col > 1 then Some AttributeError
      else None)"

text \<open>
  \<open>Series.str\<close> on a column of dtype \<open>object\<close> looks at the values that are not missing:
  it raises \<open>AttributeError\<close> ("Can only use .str accessor with string values") when
  there are some and all of them are numbers, or all of them are timestamps.  Texts,
  mixed values and a column of missing values only are accepted.
\<close>

fun is_num :: "cell \<Rightarrow> bool" where
  "is_num (Num x) = True"
| "is_num c = False"

fun is_stamp :: "cell \<Rightarrow> bool" where
  "is_stamp (Stamp t) = True"
| "is_stamp c = False"

definition str_values_ok :: "cell list \<Rightarrow> bool" where
  "str_values_ok cs =
     (let vs = filter (\<lambda>c. c \<noteq> Null) cs
      in \<not> (vs \<noteq> [] \<and> (list_all is_num vs \<or> list_all is_stamp vs)))"

text \<open>
  \<open>Series.str.strip()\<close>: a text is stripped, any other value gives \<open>NaN\<close>.
\<close>

definition str_strip :: "cell \<Rightarrow> cell" where
  "str_strip c = (case c of Str s \<Rightarrow> Str (strip s) | _ \<Rightarrow> Null)"

text \<open>
  \<open>for col in df.select_dtypes(include='object').columns: if keep col: df[col] =
  df[col].str.strip()\<close>.  The loop raises \<open>AttributeError\<close> at the first column whose
  name is not unique (\<open>df[col]\<close> is a frame then) or whose values the \<open>str\<close> accessor
  does not accept.  Stripping one column leaves the other columns as they are, so the
  columns at which the loop fails are those of the frame it starts from.
\<close>

definition object_columns :: "frame \<Rightarrow> string list" where
  "object_columns f = map fst (filter (\<lambda>(n, d). d = ObjectT) (columns f))"

definition failing_object_columns :: "(string \<Rightarrow> bool) \<Rightarrow> frame \<Rightarrow> string list" where
  "failing_object_columns keep f =
     filter (\<lambda>col. keep col \<and>
                   (count_list (names f) col > 1 \<or> \<not> str_values_ok (column_cells f col)))
       (object_columns f)"

definition strip_object_columns :: "(string \<Rightarrow> bool) \<Rightarrow> frame \<Rightarrow> error + frame" where
  "strip_object_columns keep f =
     (if failing_object_columns keep f \<noteq> [] then Inl AttributeError
      else Inr (map_cells (\<lambda>(n, d) c. if d = ObjectT \<and> keep n then str_strip c else c) f))"

text \<open>\<open>df.drop_duplicates()\<close>: of equal rows, the first one stays.\<close>

definition drop_dups :: "'a list \<Rightarrow> 'a list" where
  "drop_dups xs = rev (remdups (rev xs))"

definition drop_duplicates :: "frame \<Rightarrow> frame" where
  "drop_duplicates f = f\<lparr>rows := drop_dups (rows f)\<rparr>"

section \<open>Normalization: \<open>clean_data\<close>\<close>

text \<open>
  The regular expression substitution \<open>.str.replace(r'\(.*?\)', '', regex=True)\<close>: every
  leftmost, shortest stretch from an opening parenthesis to the next closing one on the
  same line is deleted (\<open>.\<close> does not match a newline).  \<open>re_sub_go\<close> reads the text
  once; its first argument is the text read since an opening parenthesis that is still
  waiting for its closing one.  When the line or the text ends first, no parenthesis in
  the waiting text can be closed, and the waiting text stays.
\<close>

fun re_sub_go :: "string option \<Rightarrow> string \<Rightarrow> string" where
  "re_sub_go None [] = []"
| "re_sub_go (Some p) [] = p"
| "re_sub_go None (c # cs) =
     (if c = CHR ''('' then re_sub_go (Some [c]) cs else c # re_sub_go None cs)"
| "re_sub_go (Some p) (c # cs) =
     (if c = CHR '')'' then re_sub_go None cs
      else if c = CHR 0x0A then p @ c # re_sub_go None cs
      else re_sub_go (Some (p @ [c])) cs)"

definition re_sub_parens :: "string \<Rightarrow> string" where
  "re_sub_parens s = re_sub_go None s"

text \<open>
  Two functions of pandas are parameters, and both read the whole column.

  \<open>fmt column c\<close> is the text that \<open>astype(str)\<close> writes for a cell \<open>c\<close> of \<open>column\<close> that
  is not a text already (a column of timestamps is written in one notation, chosen for
  the column).

  \<open>parse texts s\<close> is how \<open>pd.to_datetime\<close> reads the text \<open>s\<close> of the column \<open>texts\<close>:
  pandas infers one format from the column and reads every text in that format.  The
  result is \<open>Timestamp t off\<close>, the instant \<open>t\<close> (nanoseconds since the epoch) and the UTC
  offset that the text carries (\<open>None\<close> when it carries none); \<open>NotATime\<close> for a text
  that stands for a missing value (such as \<open>NaT\<close>, \<open>nan\<close> and the empty text); or
  \<open>Unparsable\<close>.

  \<open>pd.to_datetime(column, errors=...)\<close>: with \<open>errors='raise'\<close> (the default) an
  unparsable text raises \<open>ValueError\<close>; with \<open>errors='coerce'\<close> it gives \<open>NaT\<close>.  In
  either mode, texts with different UTC offsets in one column raise \<open>ValueError\<close>
  ("Mixed timezones detected"; pandas 2 warns that it will and returns the column
  unconverted).
\<close>

datatype parsed = Timestamp int "int option" | NotATime | Unparsable

datatype errors_mode = Raise | Coerce

definition astype_str :: "(cell list \<Rightarrow> cell \<Rightarrow> string) \<Rightarrow> cell list \<Rightarrow> string list" where
  "astype_str fmt column = map (\<lambda>c. case c of Str s \<Rightarrow> s | _ \<Rightarrow> fmt column c) column"

definition parse_column :: "(string list \<Rightarrow> string \<Rightarrow> parsed) \<Rightarrow> string list \<Rightarrow> parsed list" where
  "parse_column parse texts = map (parse texts) texts"

definition offsets :: "parsed list \<Rightarrow> int option list" where
  "offsets ps = concat (map (\<lambda>p. case p of Timestamp t off \<Rightarrow> [off] | _ \<Rightarrow> []) ps)"

definition mixed_offsets :: "parsed list \<Rightarrow> bool" where
  "mixed_offsets ps = (length (remdups (offsets ps)) > 1)"

definition stamp_of :: "parsed \<Rightarrow> cell" where
  "stamp_of p = (case p of Timestamp t off \<Rightarrow> Stamp t | _ \<Rightarrow> Null)"

definition to_datetime ::
  "(string list \<Rightarrow> string \<Rightarrow> parsed) \<Rightarrow> errors_mode \<Rightarrow> string list \<Rightarrow> error + cell list"
where
  "to_datetime parse errors texts =
     (let ps = parse_column parse texts
      in if errors = Raise \<and> Unparsable \<in> set ps then Inl ValueError
         else if mixed_offsets ps then Inl ValueError
         else Inr (map stamp_of ps))"

text \<open>
  Lines 141 to 143: the texts of the column \<open>created_at\<close>, without their parenthesized
  groups and stripped.
\<close>

definition created_at_texts :: "(cell list \<Rightarrow> cell \<Rightarrow> string) \<Rightarrow> frame \<Rightarrow> string list" where
  "created_at_texts fmt f =
     map (\<lambda>s. strip (re_sub_parens s)) (astype_str fmt (column_cells f ''created_at''))"

text \<open>
  Line 144, \<open>contacts['created_at'] = pd.to_datetime(contacts['created_at'],
  errors='coerce')\<close>: every row gets the value read from its own text, and the column's
  dtype becomes \<open>datetime64\<close>.
\<close>

definition set_created_at ::
  "(string list \<Rightarrow> string \<Rightarrow> parsed) \<Rightarrow> (cell list \<Rightarrow> cell \<Rightarrow> string) \<Rightarrow> frame \<Rightarrow> error + frame"
where
  "set_created_at parse fmt f =
     (case to_datetime parse Coerce (created_at_texts fmt f) of
        Inl e \<Rightarrow> Inl e
      | Inr stamps \<Rightarrow>
          Inr \<lparr>columns = map (\<lambda>(n, d). if n = ''created_at'' then (n, DatetimeT) else (n, d))
                           (columns f),
               rows = map2 (\<lambda>r s. map2 (\<lambda>(n, d) c. if n = ''created_at'' then s else c)
                                     (columns f) r)
                        (rows f) stamps\<rparr>)"

text \<open>\<open>contacts.insert(0, 'id', range(1, len(contacts)+1))\<close>\<close>

definition insert_id :: "frame \<Rightarrow> frame" where
  "insert_id f =
     \<lparr>columns = (''id'', NumberT) # columns f,
      rows = map2 (\<lambda>i r. Num (of_nat i) # r) [1..<Suc (length (rows f))] (rows f)\<rparr>"

definition clean_contacts ::
  "(string list \<Rightarrow> string \<Rightarrow> parsed) \<Rightarrow> (cell list \<Rightarrow> cell \<Rightarrow> string) \<Rightarrow> frame \<Rightarrow> error + frame"
where
  "clean_contacts parse fmt contacts0 =
     (if df_empty contacts0 then Inr contacts0
      else
        (let contacts = lower_columns contacts0
         in case str_accessor contacts ''created_at'' of
              Some e \<Rightarrow> Inl e
            | None \<Rightarrow>
                (case set_created_at parse fmt contacts of
                   Inl e \<Rightarrow> Inl e
                 | Inr dated \<Rightarrow>
                     (case strip_object_columns (\<lambda>col. col \<noteq> ''created_at'') dated of
                        Inl e \<Rightarrow> Inl e
                      | Inr stripped \<Rightarrow>
                          Inr (drop_duplicates
                                 (if ''id'' \<notin> set (map lower (names stripped))
                                  then insert_id stripped else stripped))))))"

text \<open>Entities, tech stacks and the two customer mappings are cleaned the same way.\<close>

definition clean_table :: "frame \<Rightarrow> error + frame" where
  "clean_table df0 =
     (if df_empty df0 then Inr df0
      else (case strip_object_columns (\<lambda>col. True) (lower_columns df0) of
              Inl e \<Rightarrow> Inl e
            | Inr stripped \<Rightarrow> Inr (drop_duplicates stripped)))"

record data =
  contacts :: frame
  entities :: frame
  techstacks :: frame
  customerA :: frame
  customerB :: frame

definition clean_data ::
  "(string list \<Rightarrow> string \<Rightarrow> parsed) \<Rightarrow> (cell list \<Rightarrow> cell \<Rightarrow> string) \<Rightarrow> data \<Rightarrow> error + data"
where
  "clean_data parse fmt d =
     (case clean_contacts parse fmt (contacts d) of
        Inl e \<Rightarrow> Inl e
      | Inr c \<Rightarrow>
     (case clean_table (entities d) of
        Inl e \<Rightarrow> Inl e
      | Inr en \<Rightarrow>
     (case clean_table (techstacks d) of
        Inl e \<Rightarrow> Inl e
      | Inr t \<Rightarrow>
     (case clean_table (customerA d) of
        Inl e \<Rightarrow> Inl e
      | Inr a \<Rightarrow>
     (case clean_table (customerB d) of
        Inl e \<Rightarrow> Inl e
      | Inr b \<Rightarrow>
          Inr \<lparr>contacts = c, entities = en, techstacks = t,
               customerA = a, customerB = b\<rparr>)))))"

section \<open>The merge: \<open>flatten_data\<close>\<close>

text \<open>
  \<open>pd.merge(left, right, on=col, how='left', suffixes=sfx)\<close>.  A key column that is
  missing raises \<open>KeyError\<close>, one that is not unique \<open>ValueError\<close>; key columns of
  different dtypes raise \<open>ValueError\<close> ("You are trying to merge on object and int64
  columns"; a column of dtype \<open>object\<close> is taken to hold text, as \<open>read_csv\<close> makes it).
  The result has the left columns and then the right columns without the key; a name
  that both sides have gets the side's suffix.  Every left row, in order, is paired with
  the right rows of the same key, in their order, and with missing values when there is
  none.  Missing keys match each other.  Numbers are kept by their value: pandas stores
  a numeric column that gets missing values as \<open>float64\<close>, which rounds integers beyond
  \<open>2^53\<close>; that rounding is not part of the model.
\<close>

definition dtype_of :: "frame \<Rightarrow> string \<Rightarrow> dtype" where
  "dtype_of f col = snd (columns f ! index_of col (names f))"

definition merge_key :: "frame \<Rightarrow> string \<Rightarrow> error option" where
  "merge_key f col =
     (if count_list (names f) col = 0 then Some (KeyError col)
      else if count_list (names f) col > 1 then Some ValueError
      else None)"

definition merge_columns ::
  "string \<Rightarrow> string \<times> string \<Rightarrow> (string \<times> dtype) list \<Rightarrow> (string \<times> dtype) list \<Rightarrow>
   (string \<times> dtype) list"
where
  "merge_columns col sfx lc rc =
     map (\<lambda>(n, d). (if n \<noteq> col \<and> n \<in> set (map fst rc) then n @ fst sfx else n, d)) lc @
     map (\<lambda>(n, d). (if n \<in> set (map fst lc) then n @ snd sfx else n, d))
       (filter (\<lambda>(n, d). n \<noteq> col) rc)"

definition drop_cell :: "nat \<Rightarrow> cell list \<Rightarrow> cell list" where
  "drop_cell k r = take k r @ drop (Suc k) r"

definition merge_row :: "frame \<Rightarrow> frame \<Rightarrow> string \<Rightarrow> cell list \<Rightarrow> cell list list" where
  "merge_row left right col l =
     (case filter (\<lambda>r. cell_of right col r = cell_of left col l) (rows right) of
        [] \<Rightarrow> [l @ replicate (length (columns right) - 1) Null]
      | ms \<Rightarrow> map (\<lambda>r. l @ drop_cell (index_of col (names right)) r) ms)"

definition merge_left ::
  "string \<Rightarrow> string \<times> string \<Rightarrow> frame \<Rightarrow> frame \<Rightarrow> error + frame"
where
  "merge_left col sfx left right =
     (case merge_key left col of
        Some e \<Rightarrow> Inl e
      | None \<Rightarrow>
          (case merge_key right col of
             Some e \<Rightarrow> Inl e
           | None \<Rightarrow>
               if dtype_of left col \<noteq> dtype_of right col then Inl ValueError
               else
                 Inr \<lparr>columns = merge_columns col sfx (columns left) (columns right),
                      rows = concat (map (merge_row left right col) (rows left))\<rparr>))"

text \<open>
  \<open>techstacks.groupby('place_id').agg({'name': lambda x: list(x)}).reset_index()
  .rename(columns={'name': 'tech_names'})\<close>: one row per key that is not missing, with
  the list \<open>tags_of t k\<close> of the \<open>name\<close> cells of the rows of that key, in their order.  pandas sorts
  the groups by key; here they are in the order of first appearance (the frame is only
  used as the right side of a left merge, whose rows follow the left side).
\<close>

definition tags_of :: "frame \<Rightarrow> cell \<Rightarrow> cell list" where
  "tags_of t k =
     map (cell_of t ''name'') (filter (\<lambda>r. cell_of t ''place_id'' r = k) (rows t))"

definition groupby_names :: "frame \<Rightarrow> error + frame" where
  "groupby_names t =
     (if ''place_id'' \<notin> set (names t) then Inl (KeyError ''place_id'')
      else if ''name'' \<notin> set (names t) then Inl (KeyError ''name'')
      else
        Inr \<lparr>columns = [(''place_id'', dtype_of t ''place_id''), (''tech_names'', ObjectT)],
             rows =
               map (\<lambda>k. [k, Lst (tags_of t k)])
                 (drop_dups (filter (\<lambda>k. k \<noteq> Null)
                               (map (cell_of t ''place_id'') (rows t))))\<rparr>)"

text \<open>\<open>merged['tech_names'] = None\<close>: a new last column, or the column of that name
  overwritten.\<close>

definition set_tech_names_none :: "frame \<Rightarrow> frame" where
  "set_tech_names_none f =
     (if ''tech_names'' \<in> set (names f) then
        map_cells (\<lambda>(n, d) c. if n = ''tech_names'' then Null else c) f
      else \<lparr>columns = columns f @ [(''tech_names'', ObjectT)],
            rows = map (\<lambda>r. r @ [Null]) (rows f)\<rparr>)"

text \<open>Lines 290 to 294: the tags are aggregated by place and then joined.\<close>

definition merge_tags :: "frame \<Rightarrow> frame \<Rightarrow> error + frame" where
  "merge_tags merged tags =
     (if \<not> df_empty tags then
        (case groupby_names tags of
           Inl e \<Rightarrow> Inl e
         | Inr grouped \<Rightarrow> merge_left ''place_id'' (''_x'', ''_y'') merged grouped)
      else Inr (set_tech_names_none merged))"

definition merge_mapping :: "frame \<Rightarrow> frame \<Rightarrow> error + frame" where
  "merge_mapping merged customer =
     (if \<not> df_empty customer then merge_left ''place_id'' (''_x'', ''_y'') merged customer
      else Inr merged)"

definition flatten_data :: "data \<Rightarrow> error + frame" where
  "flatten_data cleaned_data =
     (if df_empty (contacts cleaned_data) \<or> df_empty (entities cleaned_data) then
        Inr empty_frame
      else
        (case merge_left ''place_id'' (''_contact'', ''_entity'')
                (contacts cleaned_data) (entities cleaned_data) of
           Inl e \<Rightarrow> Inl e
         | Inr merged \<Rightarrow>
        (case merge_tags merged (techstacks cleaned_data) of
           Inl e \<Rightarrow> Inl e
         | Inr merged \<Rightarrow>
        (case merge_mapping merged (customerA cleaned_data) of
           Inl e \<Rightarrow> Inl e
         | Inr merged \<Rightarrow> merge_mapping merged (customerB cleaned_data)))))"

section \<open>The materialized view: \<open>create_materialized_view\<close>\<close>

text \<open>
  The statement that builds \<open>flattened_data\<close>, read on the cleaned tables as
  \<open>load_data_to_db\<close> stores them:
  \<^verbatim>\<open>FROM contacts c JOIN entities e ON c.place_id = e.place_id
 LEFT JOIN techstacks t ON e.place_id = t.place_id
 LEFT JOIN customera ca ON e.place_id = ca.place_id
 LEFT JOIN customerb cb ON e.place_id = cb.place_id
 GROUP BY c.id, c.emails, c.title, e.display_name, e.pop_estimate_2022,
          e.lat, e.long, ca.sfdc_id, cb.hubspot_id\<close>
  An SQL comparison with \<open>NULL\<close> is not true (\<open>sql_eq\<close>); \<open>GROUP BY\<close> takes \<open>NULL\<close>s as equal;
  \<open>lower\<close> of \<open>NULL\<close> is \<open>NULL\<close>; \<open>string_agg\<close> joins the values that are not \<open>NULL\<close>, and
  \<open>coalesce\<close> gives the empty text when there is none.  The columns are taken to have
  the types the statement needs (text under \<open>lower\<close>, keys that can be compared).  The
  last column, \<open>document\<close>, is the text that is given to \<open>to_tsvector\<close>.  SQL leaves the
  order of the rows open; here the groups are in the order of their first joined row.
  When a column that the statement names is missing, the statement fails and there is
  no view (\<open>None\<close>).
\<close>

definition sql_eq :: "cell \<Rightarrow> cell \<Rightarrow> bool" where
  "sql_eq a b = (a \<noteq> Null \<and> b \<noteq> Null \<and> a = b)"

definition sql_lower :: "cell \<Rightarrow> cell" where
  "sql_lower c = (case c of Str s \<Rightarrow> Str (lower s) | _ \<Rightarrow> Null)"

definition coalesce :: "cell \<Rightarrow> string" where
  "coalesce c = (case c of Str s \<Rightarrow> s | _ \<Rightarrow> [])"

fun join_sp :: "string list \<Rightarrow> string" where
  "join_sp [] = []"
| "join_sp [s] = s"
| "join_sp (s # t # ss) = s @ '' '' @ join_sp (t # ss)"

definition inner_join :: "('a \<Rightarrow> 'b \<Rightarrow> bool) \<Rightarrow> 'a list \<Rightarrow> 'b list \<Rightarrow> ('a \<times> 'b) list" where
  "inner_join on xs ys = concat (map (\<lambda>x. map (Pair x) (filter (on x) ys)) xs)"

definition matches_or_none :: "('a \<Rightarrow> 'b \<Rightarrow> bool) \<Rightarrow> 'a \<Rightarrow> 'b list \<Rightarrow> 'b option list" where
  "matches_or_none on x ys = (case filter (on x) ys of [] \<Rightarrow> [None] | ms \<Rightarrow> map Some ms)"

definition left_join ::
  "('a \<Rightarrow> 'b \<Rightarrow> bool) \<Rightarrow> 'a list \<Rightarrow> 'b list \<Rightarrow> ('a \<times> 'b option) list" where
  "left_join on xs ys = concat (map (\<lambda>x. map (Pair x) (matches_or_none on x ys)) xs)"

definition opt_cell :: "frame \<Rightarrow> string \<Rightarrow> cell list option \<Rightarrow> cell" where
  "opt_cell f col ro = (case ro of None \<Rightarrow> Null | Some r \<Rightarrow> cell_of f col r)"

type_synonym joined = "(((cell list \<times> cell list) \<times> cell list option) \<times> cell list option) \<times> cell list option"

definition view_join :: "data \<Rightarrow> joined list" where
  "view_join d =
     left_join (\<lambda>(((c, e), t), ca) cb.
         sql_eq (cell_of (entities d) ''place_id'' e) (cell_of (customerB d) ''place_id'' cb))
       (left_join (\<lambda>((c, e), t) ca.
           sql_eq (cell_of (entities d) ''place_id'' e) (cell_of (customerA d) ''place_id'' ca))
         (left_join (\<lambda>(c, e) t.
             sql_eq (cell_of (entities d) ''place_id'' e) (cell_of (techstacks d) ''place_id'' t))
           (inner_join (\<lambda>c e.
               sql_eq (cell_of (contacts d) ''place_id'' c) (cell_of (entities d) ''place_id'' e))
             (rows (contacts d)) (rows (entities d)))
           (rows (techstacks d)))
         (rows (customerA d)))
       (rows (customerB d))"

definition group_key :: "data \<Rightarrow> joined \<Rightarrow> cell list" where
  "group_key d = (\<lambda>((((c, e), t), ca), cb).
     [cell_of (contacts d) ''id'' c, cell_of (contacts d) ''emails'' c,
      cell_of (contacts d) ''title'' c, cell_of (entities d) ''display_name'' e,
      cell_of (entities d) ''pop_estimate_2022'' e, cell_of (entities d) ''lat'' e,
      cell_of (entities d) ''long'' e, opt_cell (customerA d) ''sfdc_id'' ca,
      opt_cell (customerB d) ''hubspot_id'' cb])"

definition group_names :: "data \<Rightarrow> cell list \<Rightarrow> string list" where
  "group_names d k =
     concat (map (\<lambda>((((c, e), t), ca), cb).
                    case sql_lower (opt_cell (techstacks d) ''name'' t) of
                      Str n \<Rightarrow> [n] | _ \<Rightarrow> [])
               (filter (\<lambda>r. group_key d r = k) (view_join d)))"

definition view_row :: "data \<Rightarrow> cell list \<Rightarrow> cell list" where
  "view_row d k =
     (let tech_names = join_sp (group_names d k)
      in [k ! 0, sql_lower (k ! 1), sql_lower (k ! 2), sql_lower (k ! 3), k ! 4, k ! 5, k ! 6,
          Str tech_names, k ! 7, k ! 8,
          Str (coalesce (sql_lower (k ! 1)) @ '' '' @ coalesce (sql_lower (k ! 2)) @ '' '' @
               tech_names)])"

definition view_columns_ok :: "data \<Rightarrow> bool" where
  "view_columns_ok d =
     (list_all (\<lambda>col. col \<in> set (names (contacts d))) [''id'', ''emails'', ''title'', ''place_id''] \<and>
      list_all (\<lambda>col. col \<in> set (names (entities d)))
        [''place_id'', ''display_name'', ''pop_estimate_2022'', ''lat'', ''long''] \<and>
      list_all (\<lambda>col. col \<in> set (names (techstacks d))) [''place_id'', ''name''] \<and>
      list_all (\<lambda>col. col \<in> set (names (customerA d))) [''sfdc_id'', ''place_id''] \<and>
      list_all (\<lambda>col. col \<in> set (names (customerB d))) [''hubspot_id'', ''place_id''])"

definition create_materialized_view :: "data \<Rightarrow> cell list list option" where
  "create_materialized_view d =
     (if view_columns_ok d then Some (map (view_row d) (drop_dups (map (group_key d) (view_join d))))
      else None)"

section \<open>A sample data set\<close>

text \<open>
  A small data set on which the theorems below are instantiated, with a timestamp
  notation of three texts, one without and two with a UTC offset: \<open>sample_parse\<close> reads
  them and \<open>sample_fmt\<close> writes the first.
  \<open>sample_cleaned\<close> is what \<open>clean_data\<close> makes of \<open>sample_data\<close>, \<open>sample_merged\<close> the left
  join of its contacts and entities, and \<open>sample_flattened\<close> what \<open>flatten_data\<close> returns.
  \<open>sample_tables\<close> has all the columns that the materialized view reads.
\<close>

definition sample_parse :: "string list \<Rightarrow> string \<Rightarrow> parsed" where
  "sample_parse texts s =
     (if s = ''2024-01-15 09:30:00'' then Timestamp 1705311000000000000 None
      else if s = ''2024-01-15 09:30:00+00:00'' then Timestamp 1705311000000000000 (Some 0)
      else if s = ''2024-01-15 09:30:00+01:00'' then Timestamp 1705307400000000000 (Some 3600)
      else if s \<in> set [''NaT'', ''nan'', ''''] then NotATime
      else Unparsable)"

definition sample_fmt :: "cell list \<Rightarrow> cell \<Rightarrow> string" where
  "sample_fmt column c =
     (case c of
        Stamp t \<Rightarrow> (if t = 1705311000000000000 then ''2024-01-15 09:30:00''
                    else ''1970-01-01 00:00:00'')
      | _ \<Rightarrow> ''NaT'')"

definition sample_contacts :: frame where
  "sample_contacts =
     \<lparr>columns = [(''Place_ID'', NumberT), (''Emails'', ObjectT), (''Title'', ObjectT),
                 (''created_at'', ObjectT)],
      rows = [[Num 1, Str '' ana@example.org '', Str ''Senior Engineer'',
               Str ''2024-01-15 09:30:00 (EST)''],
              [Num 2, Str ''bo@example.org'', Str ''Plumber '', Str ''not a date''],
              [Num 9, Str ''cy@example.org'', Null, Null]]\<rparr>"

definition sample_entities :: frame where
  "sample_entities =
     \<lparr>columns = [(''place_id'', NumberT), (''display_name'', ObjectT),
                 (''pop_estimate_2022'', NumberT)],
      rows = [[Num 1, Str ''Springfield '', Num 1200],
              [Num 2, Str ''Shelbyville'', Num 800],
              [Num 2, Str ''Shelbyville'', Num 800]]\<rparr>"

definition sample_techstacks :: frame where
  "sample_techstacks =
     \<lparr>columns = [(''place_id'', NumberT), (''name'', ObjectT)],
      rows = [[Num 1, Str ''React''], [Num 1, Str ''Node''], [Num 1, Str ''Vue''],
              [Num 2, Str ''Django'']]\<rparr>"

definition sample_customerA :: frame where
  "sample_customerA =
     \<lparr>columns = [(''sfdc_id'', ObjectT), (''place_id'', NumberT)],
      rows = [[Str ''00A1B2C3D4E5'', Num 1]]\<rparr>"

definition sample_data :: data where
  "sample_data =
     \<lparr>contacts = sample_contacts, entities = sample_entities, techstacks = sample_techstacks,
      customerA = sample_customerA, customerB = empty_frame\<rparr>"

definition sample_cleaned_contacts :: frame where
  "sample_cleaned_contacts =
     \<lparr>columns = [(''id'', NumberT), (''place_id'', NumberT), (''emails'', ObjectT),
                 (''title'', ObjectT), (''created_at'', DatetimeT)],
      rows = [[Num 1, Num 1, Str ''ana@example.org'', Str ''Senior Engineer'',
               Stamp 1705311000000000000],
              [Num 2, Num 2, Str ''bo@example.org'', Str ''Plumber'', Null],
              [Num 3, Num 9, Str ''cy@example.org'', Null, Null]]\<rparr>"

definition sample_cleaned :: data where
  "sample_cleaned =
     \<lparr>contacts = sample_cleaned_contacts,
      entities = \<lparr>columns = [(''place_id'', NumberT), (''display_name'', ObjectT),
                             (''pop_estimate_2022'', NumberT)],
                  rows = [[Num 1, Str ''Springfield'', Num 1200],
                          [Num 2, Str ''Shelbyville'', Num 800]]\<rparr>,
      techstacks = sample_techstacks,
      customerA = sample_customerA, customerB = empty_frame\<rparr>"

definition sample_contacts_with_id :: frame where
  "sample_contacts_with_id =
     \<lparr>columns = [(''id'', NumberT), (''emails'', ObjectT), (''created_at'', ObjectT)],
      rows = [[Num 7, Str ''ana@example.org'', Str ''2024-01-15 09:30:00''],
              [Num 7, Str ''bo@example.org'', Str ''2024-01-15 09:30:00'']]\<rparr>"

definition sample_merged :: frame where
  "sample_merged =
     \<lparr>columns = [(''id'', NumberT), (''place_id'', NumberT), (''emails'', ObjectT),
                 (''title'', ObjectT), (''created_at'', DatetimeT),
                 (''display_name'', ObjectT), (''pop_estimate_2022'', NumberT)],
      rows = [[Num 1, Num 1, Str ''ana@example.org'', Str ''Senior Engineer'',
               Stamp 1705311000000000000, Str ''Springfield'', Num 1200],
              [Num 2, Num 2, Str ''bo@example.org'', Str ''Plumber'', Null,
               Str ''Shelbyville'', Num 800],
              [Num 3, Num 9, Str ''cy@example.org'', Null, Null, Null, Null]]\<rparr>"

definition sample_flattened :: frame where
  "sample_flattened =
     \<lparr>columns = [(''id'', NumberT), (''place_id'', NumberT), (''emails'', ObjectT),
                 (''title'', ObjectT), (''created_at'', DatetimeT),
                 (''display_name'', ObjectT), (''pop_estimate_2022'', NumberT),
                 (''tech_names'', ObjectT), (''sfdc_id'', ObjectT)],
      rows = [[Num 1, Num 1, Str ''ana@example.org'', Str ''Senior Engineer'',
               Stamp 1705311000000000000, Str ''Springfield'', Num 1200,
               Lst [Str ''React'', Str ''Node'', Str ''Vue''], Str ''00A1B2C3D4E5''],
              [Num 2, Num 2, Str ''bo@example.org'', Str ''Plumber'', Null,
               Str ''Shelbyville'', Num 800, Lst [Str ''Django''], Null],
              [Num 3, Num 9, Str ''cy@example.org'', Null, Null, Null, Null, Null, Null]]\<rparr>"

definition sample_places :: frame where
  "sample_places =
     \<lparr>columns = [(''place_id'', NumberT), (''display_name'', ObjectT),
                 (''pop_estimate_2022'', NumberT), (''lat'', NumberT), (''long'', NumberT)],
      rows = [[Num 1, Str ''Springfield'', Num 1200, Num 39.8, Num (- 89.6)],
              [Num 2, Str ''Shelbyville'', Num 800, Num 39.4, Num (- 88.8)]]\<rparr>"

definition sample_customerB :: frame where
  "sample_customerB =
     \<lparr>columns = [(''hubspot_id'', ObjectT), (''place_id'', NumberT)],
      rows = [[Str ''hs4Tq9Zx'', Num 2]]\<rparr>"

definition sample_tables :: data where
  "sample_tables = sample_cleaned\<lparr>entities := sample_places, customerB := sample_customerB\<rparr>"

section \<open>Properties of the translator\<close>

lemma lower_char_colon:
  assumes "lower_char c = CHR '':''"
  shows "c = CHR '':''"
proof (rule ccontr)
  assume ne: "c \<noteq> CHR '':''"
  let ?n = "of_char c :: nat"
  from assms ne have up: "(65 \<le> ?n \<and> ?n \<le> 90) \<or> (192 \<le> ?n \<and> ?n \<le> 222 \<and> ?n \<noteq> 215)"
    and eq: "(char_of (?n + 32) :: char) = CHR '':''"
    by (auto simp: lower_char_def Let_def split: if_splits)
  from eq have "(of_char (char_of (?n + 32) :: char) :: nat) = of_char (CHR '':'')"
    by simp
  then have "(?n + 32) mod 256 = 58" by simp
  with up show False by auto
qed

lemma colon_lower: "CHR '':'' \<in> set (lower s) \<Longrightarrow> CHR '':'' \<in> set s"
  unfolding lower_def using lower_char_colon by force

lemma startswith_colon:
  assumes "startswith (lower s) p" and "CHR '':'' \<in> set p"
  shows "CHR '':'' \<in> set s"
proof -
  from assms have "CHR '':'' \<in> set (take (length p) (lower s))"
    by (simp add: startswith_def)
  then have "CHR '':'' \<in> set (lower s)" by (rule in_set_takeD)
  then show ?thesis by (rule colon_lower)
qed

lemma is_decimal_hd: "is_decimal v \<Longrightarrow> v \<noteq> [] \<and> isdigit (hd v)"
  by (cases v) (auto simp: is_decimal_def Let_def split: if_splits)

lemma startswith_filter:
  assumes "startswith (lower q) ''filter:''"
  shows "parse_custom_query q = parse_filter (split_ws (strip (drop 7 q)))"
proof -
  have l: "length ''filter:'' = 7" by simp
  from assms have t: "take 7 (lower q) = ''filter:''" unfolding startswith_def l .
  have "take 6 (lower q) = take 6 (take 7 (lower q))" by simp
  with t have t6: "take 6 (lower q) = ''filter''" by simp
  have l6: "length ''title:'' = 6" "length ''range:'' = 6" "length ''emails:'' = 7" by simp_all
  show ?thesis unfolding parse_custom_query_def startswith_def Let_def l l6 using t t6 by simp
qed

lemma startswith_range:
  assumes "startswith (lower q) ''range:''"
  shows "parse_custom_query q = parse_range (split_ws (strip (drop 6 q)))"
proof -
  have l: "length ''range:'' = 6" by simp
  from assms have t: "take 6 (lower q) = ''range:''" unfolding startswith_def l .
  have l6: "length ''title:'' = 6" "length ''emails:'' = 7" by simp_all
  have "take 7 (lower q) \<noteq> ''emails:''"
  proof
    assume e: "take 7 (lower q) = ''emails:''"
    have "take 6 (lower q) = take 6 (take 7 (lower q))" by simp
    also have "\<dots> = ''emails''" unfolding e by simp
    finally show False using t by simp
  qed
  with t show ?thesis unfolding parse_custom_query_def startswith_def Let_def l l6 by simp
qed

lemma no_colon_prefixes:
  assumes "CHR '':'' \<notin> set q"
  shows "\<not> startswith (lower q) ''title:''" "\<not> startswith (lower q) ''emails:''"
    "\<not> startswith (lower q) ''range:''" "\<not> startswith (lower q) ''filter:''"
    "\<not> startswith (lower q) ''crm:''"
  using assms startswith_colon [of q "''title:''"] startswith_colon [of q "''emails:''"]
    startswith_colon [of q "''range:''"] startswith_colon [of q "''filter:''"]
    startswith_colon [of q "''crm:''"]
  by auto

lemma no_colon_fulltext:
  assumes "CHR '':'' \<notin> set q"
  shows \<open>parse_custom_query q =
           Some (''SELECT * FROM flattened_data WHERE "document" @@ plainto_tsquery('english', '' @
                 [CHR 0x27] @ q @ ''');'')\<close>
  using assms no_colon_prefixes [OF assms] by (simp add: parse_custom_query_def Let_def)

lemma no_colon_raw:
  assumes "CHR '':'' \<notin> set q"
  shows "select_statement q = Raw q"
  using assms no_colon_prefixes [OF assms] by (simp add: select_statement_def is_shorthand_def)

lemma not_digit_eq: "\<not> isdigit (CHR ''='')"
  by (simp add: isdigit_def)

lemma decimal_no_eq:
  assumes "is_decimal v"
  shows "\<not> startswith v ''=''"
proof
  assume "startswith v ''=''"
  then have "hd v = CHR ''=''" by (cases v) (auto simp: startswith_def)
  with is_decimal_hd [OF assms] not_digit_eq show False by simp
qed

lemma op_prefix:
  assumes "op \<in> set cmp_ops" and "\<not> startswith v ''=''"
  shows "startswith (op @ v) ''>='' \<longleftrightarrow> op = ''>=''"
    and "startswith (op @ v) ''>'' \<longleftrightarrow> op = ''>='' \<or> op = ''>''"
    and "startswith (op @ v) ''<='' \<longleftrightarrow> op = ''<=''"
    and "startswith (op @ v) ''<'' \<longleftrightarrow> op = ''<='' \<or> op = ''<''"
  using assms by (auto simp: cmp_ops_def startswith_def)

lemma parse_filter_ok:
  assumes "op \<in> set cmp_ops" and "\<not> startswith v ''=''"
  shows \<open>parse_filter [t1, t2, op @ v] =
           Some (''SELECT * FROM flattened_data WHERE "emails" ILIKE '%'' @ t1 @
              ''%' AND "tech_names" ILIKE '%'' @ t2 @
              ''%' AND pop_estimate_2022 '' @ op @ '' '' @ v @ '';'')\<close>
proof -
  from assms(1) have "op = ''>='' \<or> op = ''>'' \<or> op = ''<='' \<or> op = ''<''"
    by (simp add: cmp_ops_def)
  then show ?thesis
    using op_prefix [OF assms]
    by (elim disjE) (simp_all add: parse_filter_def Let_def)
qed

lemma parse_filter_count:
  "length parts \<noteq> 3 \<Longrightarrow> parse_filter parts = Some ''SELECT 'Invalid filter query format' AS error;''"
  by (simp add: parse_filter_def)

lemma parse_filter_prefix:
  assumes "\<forall>op \<in> set cmp_ops. \<not> startswith t3 op"
  shows "parse_filter [t1, t2, t3] = Some ''SELECT 'Invalid population expression' AS error;''"
proof -
  from assms have "\<not> startswith t3 ''>=''" "\<not> startswith t3 ''>''"
    "\<not> startswith t3 ''<=''" "\<not> startswith t3 ''<''"
    by (simp_all add: cmp_ops_def)
  then show ?thesis by (simp add: parse_filter_def Let_def)
qed

lemma re_match_range_ok:
  assumes "op \<in> set cmp_ops" and "is_decimal v"
  shows "re_match_range (op @ v) = Some (op, v)"
proof -
  from assms(1) have "op = ''>='' \<or> op = ''>'' \<or> op = ''<='' \<or> op = ''<''"
    by (simp add: cmp_ops_def)
  then show ?thesis
    using op_prefix [OF assms(1) decimal_no_eq [OF assms(2)]] assms(2)
    by (elim disjE) (simp_all add: re_match_range_def cmp_ops_def startswith_def)
qed

lemma parse_range_two:
  assumes "op \<in> set cmp_ops" and "is_decimal v"
  shows "parse_range [field, op @ v] = Some (range_stmt field op v)"
  using re_match_range_ok [OF assms] by (simp add: parse_range_def)

lemma parse_range_three: "parse_range [field, op, v] = Some (range_stmt field op v)"
  by (simp add: parse_range_def)

lemma parse_range_two_malformed:
  "re_match_range e = None \<Longrightarrow> parse_range [field, e] = None"
  by (simp add: parse_range_def)

text \<open>
  Claim C3.  An input that begins with \<open>range:\<close> and is followed by a field and a
  comparison of the form operator, unsigned decimal gives the numeric comparison
  (\<open>parse_range_two\<close>, \<open>parse_range_three\<close>, and the third conjunct below).  The claim
  that every other input gives the error statement fails on the code: two tokens whose
  second is malformed give no statement at all (\<open>None\<close>), and three tokens are put into
  a statement whatever the operator and the value are.  Only a token count other than
  two and three gives the error statement.
\<close>

theorem range_malformed_escapes:
  "parse_custom_query ''range: pop_estimate_2022 >abc'' = None \<and>
   parse_custom_query ''range: pop_estimate_2022 = abc''
     = Some ''SELECT * FROM flattened_data WHERE pop_estimate_2022 = abc;'' \<and>
   parse_custom_query ''range: pop_estimate_2022 >100''
     = Some ''SELECT * FROM flattened_data WHERE pop_estimate_2022 > 100;'' \<and>
   parse_custom_query ''range: a b c d'' = Some ''SELECT 'Invalid range query' AS error;''"
  by code_simp

text \<open>
  Claim C4.  For an input that begins with \<open>filter:\<close> (in any letter case): when the
  rest consists of exactly three tokens and the third is one of the four comparison
  operators followed by a value that does not begin with \<open>=\<close> (as no number does, in
  whatever notation), the translator returns the statement whose condition is the
  conjunction of \<open>"emails" ILIKE '%token1%'\<close>, \<open>"tech_names" ILIKE '%token2%'\<close> and
  \<open>pop_estimate_2022 op value\<close>; any other number of tokens gives the format error, and
  a third token that starts with none of the operators gives the population-expression
  error.
\<close>

theorem filter_translation:
  assumes "startswith (lower q) ''filter:''"
  shows \<open>(\<forall>t1 t2 op v. split_ws (strip (drop 7 q)) = [t1, t2, op @ v] \<and> op \<in> set cmp_ops \<and>
            \<not> startswith v ''='' \<longrightarrow>
            parse_custom_query q =
              Some (''SELECT * FROM flattened_data WHERE "emails" ILIKE '%'' @ t1 @
              ''%' AND "tech_names" ILIKE '%'' @ t2 @
              ''%' AND pop_estimate_2022 '' @ op @ '' '' @ v @ '';'')) \<and>
         (length (split_ws (strip (drop 7 q))) \<noteq> 3 \<longrightarrow>
            parse_custom_query q = Some ''SELECT 'Invalid filter query format' AS error;'') \<and>
         (\<forall>t1 t2 t3. split_ws (strip (drop 7 q)) = [t1, t2, t3] \<and>
            (\<forall>op \<in> set cmp_ops. \<not> startswith t3 op) \<longrightarrow>
            parse_custom_query q = Some ''SELECT 'Invalid population expression' AS error;'')\<close>
proof (intro conjI allI impI)
  fix t1 t2 op v
  assume "split_ws (strip (drop 7 q)) = [t1, t2, op @ v] \<and> op \<in> set cmp_ops \<and>
          \<not> startswith v ''=''"
  then show \<open>parse_custom_query q =
              Some (''SELECT * FROM flattened_data WHERE "emails" ILIKE '%'' @ t1 @
              ''%' AND "tech_names" ILIKE '%'' @ t2 @
              ''%' AND pop_estimate_2022 '' @ op @ '' '' @ v @ '';'')\<close>
    using startswith_filter [OF assms] parse_filter_ok by simp
next
  assume "length (split_ws (strip (drop 7 q))) \<noteq> 3"
  then show "parse_custom_query q = Some ''SELECT 'Invalid filter query format' AS error;''"
    using startswith_filter [OF assms] parse_filter_count by simp
next
  fix t1 t2 t3
  assume "split_ws (strip (drop 7 q)) = [t1, t2, t3] \<and> (\<forall>op \<in> set cmp_ops. \<not> startswith t3 op)"
  then show "parse_custom_query q = Some ''SELECT 'Invalid population expression' AS error;''"
    using startswith_filter [OF assms] parse_filter_prefix by simp
qed

theorem filter_translation_witness:
  \<open>startswith (lower ''filter: gmail react >=500'') ''filter:'' \<and>
   split_ws (strip (drop 7 ''filter: gmail react >=500'')) = [''gmail'', ''react'', ''>='' @ ''500''] \<and>
   ''>='' \<in> set cmp_ops \<and> \<not> startswith ''500'' ''='' \<and>
   parse_custom_query ''filter: gmail react >=500'' =
     Some (''SELECT * FROM flattened_data WHERE "emails" ILIKE '%gmail%' '' @
           ''AND "tech_names" ILIKE '%react%' AND pop_estimate_2022 >= 500;'') \<and>
   split_ws (strip (drop 7 ''Filter:  a.org   vue <-1.5e3 '')) = [''a.org'', ''vue'', ''<'' @ ''-1.5e3''] \<and>
   parse_custom_query ''Filter:  a.org   vue <-1.5e3 '' =
     Some (''SELECT * FROM flattened_data WHERE "emails" ILIKE '%a.org%' '' @
           ''AND "tech_names" ILIKE '%vue%' AND pop_estimate_2022 < -1.5e3;'') \<and>
   length (split_ws (strip (drop 7 ''filter: gmail react''))) = 2 \<and>
   parse_custom_query ''filter: gmail react'' =
     Some ''SELECT 'Invalid filter query format' AS error;'' \<and>
   split_ws (strip (drop 7 ''FILTER: gmail react =500'')) = [''gmail'', ''react'', ''=500''] \<and>
   parse_custom_query ''FILTER: gmail react =500'' =
     Some ''SELECT 'Invalid population expression' AS error;''\<close>
proof -
  have a: "startswith (lower ''filter: gmail react >=500'') ''filter:''" by code_simp
  have a1: "split_ws (strip (drop 7 ''filter: gmail react >=500'')) = [''gmail'', ''react'', ''>='' @ ''500'']"
    by code_simp
  have a2: "''>='' \<in> set cmp_ops" by code_simp
  have a3: "\<not> startswith ''500'' ''=''" by code_simp
  have d: "startswith (lower ''Filter:  a.org   vue <-1.5e3 '') ''filter:''" by code_simp
  have d1: "split_ws (strip (drop 7 ''Filter:  a.org   vue <-1.5e3 '')) = [''a.org'', ''vue'', ''<'' @ ''-1.5e3'']"
    by code_simp
  have d2: "''<'' \<in> set cmp_ops" by code_simp
  have d3: "\<not> startswith ''-1.5e3'' ''=''" by code_simp
  have b: "startswith (lower ''filter: gmail react'') ''filter:''" by code_simp
  have b1: "length (split_ws (strip (drop 7 ''filter: gmail react''))) = 2" by code_simp
  have c: "startswith (lower ''FILTER: gmail react =500'') ''filter:''" by code_simp
  have c1: "split_ws (strip (drop 7 ''FILTER: gmail react =500'')) = [''gmail'', ''react'', ''=500'']"
    by code_simp
  have c2: "\<forall>op \<in> set cmp_ops. \<not> startswith ''=500'' op" by code_simp
  from filter_translation [OF a] a1 a2 a3
  have \<open>parse_custom_query ''filter: gmail react >=500'' =
     Some (''SELECT * FROM flattened_data WHERE "emails" ILIKE '%'' @ ''gmail'' @
              ''%' AND "tech_names" ILIKE '%'' @ ''react'' @
              ''%' AND pop_estimate_2022 '' @ ''>='' @ '' '' @ ''500'' @ '';'')\<close> by blast
  then have r1: \<open>parse_custom_query ''filter: gmail react >=500'' =
     Some (''SELECT * FROM flattened_data WHERE "emails" ILIKE '%gmail%' '' @
           ''AND "tech_names" ILIKE '%react%' AND pop_estimate_2022 >= 500;'')\<close> by simp
  from filter_translation [OF d] d1 d2 d3
  have \<open>parse_custom_query ''Filter:  a.org   vue <-1.5e3 '' =
     Some (''SELECT * FROM flattened_data WHERE "emails" ILIKE '%'' @ ''a.org'' @
              ''%' AND "tech_names" ILIKE '%'' @ ''vue'' @
              ''%' AND pop_estimate_2022 '' @ ''<'' @ '' '' @ ''-1.5e3'' @ '';'')\<close> by blast
  then have r4: \<open>parse_custom_query ''Filter:  a.org   vue <-1.5e3 '' =
     Some (''SELECT * FROM flattened_data WHERE "emails" ILIKE '%a.org%' '' @
           ''AND "tech_names" ILIKE '%vue%' AND pop_estimate_2022 < -1.5e3;'')\<close> by simp
  from filter_translation [OF b] b1
  have r2: "parse_custom_query ''filter: gmail react'' =
     Some ''SELECT 'Invalid filter query format' AS error;''" by simp
  from filter_translation [OF c] c1 c2
  have r3: "parse_custom_query ''FILTER: gmail react =500'' =
     Some ''SELECT 'Invalid population expression' AS error;''" by blast
  show ?thesis
    by (intro conjI) (rule a a1 a2 a3 r1 d1 r4 b1 r2 c1 r3)+
qed

text \<open>
  The tokens of \<open>str.split()\<close> are the words of the input: the two shorthand forms
  above, on inputs written out with their whitespace.
\<close>

lemma split_go_token:
  "\<forall>c \<in> set t. \<not> isspace c \<Longrightarrow> split_go cur (t @ rest) = split_go (cur @ t) rest"
  by (induction t arbitrary: cur) simp_all

lemma split_go_spaces_empty:
  "\<forall>c \<in> set w. isspace c \<Longrightarrow> split_go [] (w @ rest) = split_go [] rest"
  by (induction w) simp_all

lemma split_go_spaces:
  "\<forall>c \<in> set w. isspace c \<Longrightarrow> w \<noteq> [] \<Longrightarrow> cur \<noteq> [] \<Longrightarrow>
   split_go cur (w @ rest) = cur # split_go [] rest"
  by (cases w) (simp_all add: split_go_spaces_empty)

lemma split_go_spaces_end:
  "\<forall>c \<in> set w. isspace c \<Longrightarrow> split_go cur w = (if cur = [] then [] else [cur])"
  using split_go_spaces_empty [of w "[]"] split_go_spaces [of w cur "[]"]
  by (cases w) auto

lemma split_go_trailing:
  "\<forall>c \<in> set w. isspace c \<Longrightarrow> split_go cur (xs @ w) = split_go cur xs"
proof (induction xs arbitrary: cur)
  case Nil
  then show ?case by (simp add: split_go_spaces_end)
next
  case (Cons x xs)
  then show ?case by simp
qed

lemma split_go_dropWhile: "split_go [] (dropWhile isspace s) = split_go [] s"
  by (induction s) simp_all

lemma split_ws_strip: "split_ws (strip s) = split_ws s"
proof -
  define u where "u = dropWhile isspace s"
  have "u = rev (dropWhile isspace (rev u)) @ rev (takeWhile isspace (rev u))"
    by (metis rev_append rev_rev_ident takeWhile_dropWhile_id)
  moreover have "\<forall>c \<in> set (rev (takeWhile isspace (rev u))). isspace c"
    by (auto dest: set_takeWhileD)
  ultimately have "split_go [] u = split_go [] (rev (dropWhile isspace (rev u)))"
    by (metis split_go_trailing)
  then show ?thesis
    by (simp add: split_ws_def strip_def u_def [symmetric]) (simp add: u_def split_go_dropWhile)
qed

lemma split_ws_three:
  assumes t: "\<forall>c \<in> set t1. \<not> isspace c" "\<forall>c \<in> set t2. \<not> isspace c" "\<forall>c \<in> set t3. \<not> isspace c"
    and ne: "t1 \<noteq> []" "t2 \<noteq> []" "t3 \<noteq> []"
    and w: "\<forall>c \<in> set w0. isspace c" "\<forall>c \<in> set w1. isspace c" "\<forall>c \<in> set w2. isspace c"
      "\<forall>c \<in> set w3. isspace c"
    and wne: "w1 \<noteq> []" "w2 \<noteq> []"
  shows "split_ws (strip (w0 @ t1 @ w1 @ t2 @ w2 @ t3 @ w3)) = [t1, t2, t3]"
proof -
  have "split_go [] (w0 @ t1 @ w1 @ t2 @ w2 @ t3 @ w3) = split_go [] (t1 @ w1 @ t2 @ w2 @ t3 @ w3)"
    using w(1) by (rule split_go_spaces_empty)
  also have "\<dots> = split_go t1 (w1 @ t2 @ w2 @ t3 @ w3)"
    using split_go_token [OF t(1), of "[]"] by simp
  also have "\<dots> = t1 # split_go [] (t2 @ w2 @ t3 @ w3)"
    using w(2) wne(1) ne(1) by (rule split_go_spaces)
  also have "split_go [] (t2 @ w2 @ t3 @ w3) = split_go t2 (w2 @ t3 @ w3)"
    using split_go_token [OF t(2), of "[]"] by simp
  also have "\<dots> = t2 # split_go [] (t3 @ w3)"
    using w(3) wne(2) ne(2) by (rule split_go_spaces)
  also have "split_go [] (t3 @ w3) = split_go t3 w3"
    using split_go_token [OF t(3), of "[]"] by simp
  also have "\<dots> = [t3]" using w(4) ne(3) by (simp add: split_go_spaces_end)
  finally have "split_go [] (w0 @ t1 @ w1 @ t2 @ w2 @ t3 @ w3) = [t1, t2, t3]" .
  then show ?thesis by (subst split_ws_strip) (simp add: split_ws_def)
qed

lemma isdigit_not_space: "isdigit c \<Longrightarrow> \<not> isspace c"
  by (auto simp: isdigit_def isspace_def Let_def)

lemma is_decimal_chars:
  assumes "is_decimal v"
  shows "\<forall>c \<in> set v. \<not> isspace c"
proof -
  let ?r = "dropWhile isdigit v"
  have v: "v = takeWhile isdigit v @ ?r" by simp
  have a: "\<forall>c \<in> set (takeWhile isdigit v). \<not> isspace c"
    by (auto dest: set_takeWhileD isdigit_not_space)
  have dot: "\<not> isspace (CHR ''.'')" by (simp add: isspace_def)
  have b: "\<forall>c \<in> set ?r. \<not> isspace c"
  proof (cases ?r)
    case Nil
    show ?thesis unfolding Nil by simp
  next
    case (Cons x xs)
    with assms have "x = CHR ''.''" and "list_all isdigit xs"
      by (simp_all add: is_decimal_def Let_def)
    with Cons dot show ?thesis by (auto simp: list_all_iff dest: isdigit_not_space)
  qed
  from a b show ?thesis by (metis Un_iff set_append v)
qed

lemma cmp_op_chars:
  assumes "op \<in> set cmp_ops"
  shows "\<forall>c \<in> set op. \<not> isspace c" and "op \<noteq> []"
proof -
  have "\<not> isspace (CHR ''>'')" "\<not> isspace (CHR ''<'')" "\<not> isspace (CHR ''='')"
    by (simp_all add: isspace_def)
  with assms show "\<forall>c \<in> set op. \<not> isspace c" by (auto simp: cmp_ops_def)
  from assms show "op \<noteq> []" by (auto simp: cmp_ops_def)
qed

lemma filter_query_syntax:
  assumes p: "lower p = ''filter:''"
    and t: "\<forall>c \<in> set t1. \<not> isspace c" "\<forall>c \<in> set t2. \<not> isspace c" "t1 \<noteq> []" "t2 \<noteq> []"
    and w: "\<forall>c \<in> set w0. isspace c" "\<forall>c \<in> set w1. isspace c" "\<forall>c \<in> set w2. isspace c"
      "\<forall>c \<in> set w3. isspace c" "w1 \<noteq> []" "w2 \<noteq> []"
    and op: "op \<in> set cmp_ops" and v: "is_decimal v"
  shows \<open>parse_custom_query (p @ w0 @ t1 @ w1 @ t2 @ w2 @ op @ v @ w3) =
           Some (''SELECT * FROM flattened_data WHERE "emails" ILIKE '%'' @ t1 @
              ''%' AND "tech_names" ILIKE '%'' @ t2 @
              ''%' AND pop_estimate_2022 '' @ op @ '' '' @ v @ '';'')\<close>
proof -
  let ?q = "p @ w0 @ t1 @ w1 @ t2 @ w2 @ op @ v @ w3"
  have "length (lower p) = 7" unfolding p by simp
  then have lp: "length p = 7" by (simp add: lower_def)
  have sw: "startswith (lower ?q) ''filter:''"
    using p lp by (simp add: startswith_def lower_def)
  have t3: "\<forall>c \<in> set (op @ v). \<not> isspace c" "op @ v \<noteq> []"
    using cmp_op_chars [OF op] is_decimal_chars [OF v] by auto
  have "split_ws (strip (drop 7 ?q)) = split_ws (strip (w0 @ t1 @ w1 @ t2 @ w2 @ (op @ v) @ w3))"
    using lp by simp
  also have "\<dots> = [t1, t2, op @ v]"
    using t(1,2) t3(1) t(3,4) t3(2) w(1-4) w(5,6) by (rule split_ws_three)
  finally have "parse_custom_query ?q = parse_filter [t1, t2, op @ v]"
    using startswith_filter [OF sw] by simp
  then show ?thesis using parse_filter_ok [OF op decimal_no_eq [OF v]] by simp
qed

lemma split_ws_two:
  assumes t: "\<forall>c \<in> set t1. \<not> isspace c" "\<forall>c \<in> set t2. \<not> isspace c"
    and ne: "t1 \<noteq> []" "t2 \<noteq> []"
    and w: "\<forall>c \<in> set w0. isspace c" "\<forall>c \<in> set w1. isspace c" "\<forall>c \<in> set w2. isspace c"
    and wne: "w1 \<noteq> []"
  shows "split_ws (strip (w0 @ t1 @ w1 @ t2 @ w2)) = [t1, t2]"
proof -
  have "split_go [] (w0 @ t1 @ w1 @ t2 @ w2) = split_go [] (t1 @ w1 @ t2 @ w2)"
    using w(1) by (rule split_go_spaces_empty)
  also have "\<dots> = split_go t1 (w1 @ t2 @ w2)"
    using split_go_token [OF t(1), of "[]"] by simp
  also have "\<dots> = t1 # split_go [] (t2 @ w2)"
    using w(2) wne ne(1) by (rule split_go_spaces)
  also have "split_go [] (t2 @ w2) = split_go t2 w2"
    using split_go_token [OF t(2), of "[]"] by simp
  also have "\<dots> = [t2]" using w(3) ne(2) by (simp add: split_go_spaces_end)
  finally have "split_go [] (w0 @ t1 @ w1 @ t2 @ w2) = [t1, t2]" .
  then show ?thesis by (subst split_ws_strip) (simp add: split_ws_def)
qed

lemma range_query_syntax:
  assumes p: "lower p = ''range:''"
    and t: "\<forall>c \<in> set field. \<not> isspace c" "field \<noteq> []"
    and w: "\<forall>c \<in> set w0. isspace c" "\<forall>c \<in> set w1. isspace c" "\<forall>c \<in> set w2. isspace c"
      "w1 \<noteq> []"
    and op: "op \<in> set cmp_ops" and v: "is_decimal v"
  shows "parse_custom_query (p @ w0 @ field @ w1 @ op @ v @ w2) = Some (range_stmt field op v)"
proof -
  let ?q = "p @ w0 @ field @ w1 @ op @ v @ w2"
  have "length (lower p) = 6" unfolding p by simp
  then have lp: "length p = 6" by (simp add: lower_def)
  have sw: "startswith (lower ?q) ''range:''"
    using p lp by (simp add: startswith_def lower_def)
  have t2: "\<forall>c \<in> set (op @ v). \<not> isspace c" "op @ v \<noteq> []"
    using cmp_op_chars [OF op] is_decimal_chars [OF v] by auto
  have "split_ws (strip (drop 6 ?q)) = split_ws (strip (w0 @ field @ w1 @ (op @ v) @ w2))"
    using lp by simp
  also have "\<dots> = [field, op @ v]"
    using t(1) t2(1) t(2) t2(2) w(1-3) w(4) by (rule split_ws_two)
  finally have "parse_custom_query ?q = parse_range [field, op @ v]"
    using startswith_range [OF sw] by simp
  then show ?thesis using parse_range_two [OF op v] by simp
qed

text \<open>
  Claim C6 as stated, on the query path of the interactive loop, fails: the loop calls
  the translator only for inputs with a shorthand prefix or a colon, and an input
  without a colon, such as \<open>node\<close>, is sent to the backend as it was typed, not as a
  full-text match.
\<close>

theorem interactive_no_colon_counterexample:
  \<open>statement_text (select_statement ''node'') = Some ''node'' \<and>
   statement_text (select_statement ''node'') \<noteq>
     Some (''SELECT * FROM flattened_data WHERE "document" @@ '' @
           ''plainto_tsquery('english', 'node');'')\<close>
  by code_simp

text \<open>
  Claim C6, amended.  For every input without a colon, the translator
  \<open>parse_custom_query\<close> returns the statement that matches \<open>document\<close> against the
  free-text query made of the whole input,
  \<open>"document" @@ plainto_tsquery('english', 'input')\<close>, and the interactive loop runs the
  input itself, untranslated.
\<close>

theorem no_colon_translation:
  assumes "CHR '':'' \<notin> set q"
  shows \<open>parse_custom_query q =
           Some (''SELECT * FROM flattened_data WHERE "document" @@ plainto_tsquery('english', '' @
                 [CHR 0x27] @ q @ ''');'') \<and>
         select_statement q = Raw q\<close>
  using no_colon_fulltext [OF assms] no_colon_raw [OF assms] by simp

theorem no_colon_translation_witness:
  \<open>CHR '':'' \<notin> set ''node'' \<and>
   parse_custom_query ''node'' =
     Some (''SELECT * FROM flattened_data WHERE "document" @@ '' @
           ''plainto_tsquery('english', 'node');'') \<and>
   select_statement ''node'' = Raw ''node''\<close>
proof -
  have h: "CHR '':'' \<notin> set ''node''" by simp
  from no_colon_translation [OF h] h show ?thesis by simp
qed

text \<open>
  Claim C8.  When the backend returns rows for the statement of a turn, the turn reports
  the number of all returned rows and shows the first ten of them: never more than ten,
  and all of them when there are at most ten.
\<close>

theorem executor_preview:
  assumes "statement_text (select_statement user_input) = Some sql_query"
    and "exec db sql_query = (Inr fetched, db')"
  shows "reply (fst (pg_turn exec db user_input)) = Rows (length fetched) (take 10 fetched) \<and>
         length (take 10 fetched) \<le> 10 \<and>
         (length fetched \<le> 10 \<longrightarrow> take 10 fetched = fetched)"
  using assms by (simp add: pg_turn_def Let_def)

theorem executor_preview_witness:
  "statement_text (select_statement ''title: engineer'') =
     Some ''SELECT * FROM flattened_data WHERE lower(title) ILIKE '%engineer%';'' \<and>
   reply (fst (pg_turn (\<lambda>db s. (Inr [1, 2, 3, 4, 5, 6, 7, 8, 9, 10, 11, 12 :: nat], db)) ()
                 ''title: engineer''))
     = (Rows 12 [1, 2, 3, 4, 5, 6, 7, 8, 9, 10] :: (unit, nat) reply)"
proof -
  let ?q = "''SELECT * FROM flattened_data WHERE lower(title) ILIKE '%engineer%';''"
  let ?rs = "[1, 2, 3, 4, 5, 6, 7, 8, 9, 10, 11, 12 :: nat]"
  let ?exec = "\<lambda>(db :: unit) (s :: string). (Inr ?rs :: unit + nat list, db)"
  have h: "statement_text (select_statement ''title: engineer'') = Some ?q"
    by code_simp
  have e: "?exec () ?q = (Inr ?rs, ())" by simp
  from executor_preview [where exec = ?exec and db = "()" and db' = "()" and fetched = ?rs
      and user_input = "''title: engineer''" and sql_query = ?q, OF h e] h
  show ?thesis by simp
qed

section \<open>Properties of normalization\<close>

lemma lower_char_idem: "lower_char (lower_char c) = lower_char c"
proof -
  let ?n = "of_char c :: nat"
  have lt: "?n < 256" by simp
  show ?thesis
  proof (cases "(65 \<le> ?n \<and> ?n \<le> 90) \<or> (192 \<le> ?n \<and> ?n \<le> 222 \<and> ?n \<noteq> 215)")
    case True
    then have l: "lower_char c = char_of (?n + 32)" by (simp add: lower_char_def Let_def)
    have "(of_char (char_of (?n + 32) :: char) :: nat) = (?n + 32) mod 256" by simp
    also have "\<dots> = ?n + 32" using True by auto
    finally have m: "(of_char (char_of (?n + 32) :: char) :: nat) = ?n + 32" .
    show ?thesis unfolding l using True m by (auto simp add: lower_char_def Let_def)
  next
    case False
    then have "lower_char c = c" by (auto simp add: lower_char_def Let_def)
    then show ?thesis by simp
  qed
qed

lemma lower_idem: "lower (lower s) = lower s"
  by (simp add: lower_def lower_char_idem)

lemma dropWhile_fix: "xs = [] \<or> \<not> P (hd xs) \<Longrightarrow> dropWhile P xs = xs"
  by (cases xs) auto

lemma strip_idem: "strip (strip s) = strip s"
proof -
  define u where "u = dropWhile isspace s"
  define v where "v = dropWhile isspace (rev u)"
  have sv: "strip s = rev v" by (simp add: strip_def u_def v_def)
  have v_fix: "dropWhile isspace v = v"
    unfolding v_def by (rule dropWhile_fix) (metis hd_dropWhile)
  have "dropWhile isspace (rev v) = rev v"
  proof (cases "v = []")
    case True then show ?thesis by simp
  next
    case False
    then have ru: "rev u \<noteq> []" by (auto simp: v_def)
    then have un: "u \<noteq> []" by simp
    have "\<exists>w. rev u = w @ v" unfolding v_def by (metis takeWhile_dropWhile_id)
    then obtain w where w: "rev u = w @ v" ..
    then have "u = rev v @ rev w" by (metis rev_append rev_rev_ident)
    with False have "hd (rev v) = hd u" by simp
    moreover have "\<not> isspace (hd u)" using un unfolding u_def by (metis hd_dropWhile)
    ultimately show ?thesis by (intro dropWhile_fix) simp
  qed
  then show ?thesis unfolding sv by (simp add: strip_def v_fix)
qed

lemma str_strip_idem: "str_strip (str_strip c) = str_strip c"
  by (cases c) (simp_all add: str_strip_def strip_idem)

lemma distinct_drop_dups: "distinct (drop_dups xs)"
  by (simp add: drop_dups_def)

lemma set_drop_dups: "set (drop_dups xs) = set xs"
  by (simp add: drop_dups_def)

lemma drop_dups_distinct: "distinct xs \<Longrightarrow> drop_dups xs = xs"
  by (simp add: drop_dups_def distinct_remdups_id)

lemma drop_dups_idem: "drop_dups (drop_dups xs) = drop_dups xs"
  by (simp add: drop_dups_distinct distinct_drop_dups)

lemma drop_dups_nil: "drop_dups xs = [] \<longleftrightarrow> xs = []"
  by (simp add: drop_dups_def)

lemma re_sub_go_plain:
  "CHR ''('' \<notin> set a \<Longrightarrow> re_sub_go None (a @ rest) = a @ re_sub_go None rest"
  by (induction a) auto

lemma re_sub_go_close:
  "CHR '')'' \<notin> set b \<Longrightarrow> CHR 0x0A \<notin> set b \<Longrightarrow>
   re_sub_go (Some p) (b @ CHR '')'' # c) = re_sub_go None c"
  by (induction b arbitrary: p) auto

lemma re_sub_parens_group:
  assumes "CHR ''('' \<notin> set a" and "CHR '')'' \<notin> set b" and "CHR 0x0A \<notin> set b"
  shows "re_sub_parens (a @ ''('' @ b @ '')'' @ c) = a @ re_sub_parens c"
  using assms by (simp add: re_sub_parens_def re_sub_go_plain re_sub_go_close)

lemma re_sub_parens_plain:
  "CHR ''('' \<notin> set a \<Longrightarrow> re_sub_parens a = a"
  using re_sub_go_plain [of a "[]"] by (simp add: re_sub_parens_def)

lemma map2_comp:
  "map2 h2 cols (map2 h1 cols r) = map2 (\<lambda>c x. h2 c (h1 c x)) cols r"
proof (induction cols arbitrary: r)
  case Nil
  show ?case by simp
next
  case (Cons c cols)
  then show ?case by (cases r) simp_all
qed

lemma map2_map_left: "map2 h (map u cols) r = map2 (\<lambda>c. h (u c)) cols r"
proof (induction cols arbitrary: r)
  case Nil
  show ?case by simp
next
  case (Cons c cols)
  then show ?case by (cases r) simp_all
qed

lemma map2_cong_cols:
  "(\<And>c x. c \<in> set cols \<Longrightarrow> h c x = h' c x) \<Longrightarrow> map2 h cols r = map2 h' cols r"
proof (induction cols arbitrary: r)
  case Nil
  show ?case by simp
next
  case (Cons c cols)
  then show ?case by (cases r) simp_all
qed

lemma map2_idem:
  assumes "\<And>c x. c \<in> set cols \<Longrightarrow> h c (h c x) = h c x"
  shows "map2 h cols (map2 h cols r) = map2 h cols r"
  unfolding map2_comp using assms by (rule map2_cong_cols)

lemma columns_lower_columns: "columns (lower_columns f) = map (\<lambda>(n, d). (lower n, d)) (columns f)"
  and rows_lower_columns: "rows (lower_columns f) = rows f"
  by (simp_all add: lower_columns_def)

lemma names_lower_columns: "names (lower_columns f) = map lower (names f)"
  by (simp add: names_def lower_columns_def case_prod_unfold)

lemma columns_map_cells: "columns (map_cells h f) = columns f"
  and rows_map_cells: "rows (map_cells h f) = map (\<lambda>r. map2 h (columns f) r) (rows f)"
  by (simp_all add: map_cells_def)

lemma names_map_cells: "names (map_cells h f) = names f"
  by (simp add: names_def columns_map_cells)

lemma columns_drop_duplicates: "columns (drop_duplicates f) = columns f"
  and rows_drop_duplicates: "rows (drop_duplicates f) = drop_dups (rows f)"
  by (simp_all add: drop_duplicates_def)

lemma lower_columns_fix:
  assumes "\<And>n. n \<in> set (names f) \<Longrightarrow> lower n = n"
  shows "lower_columns f = f"
proof -
  have "map (\<lambda>(n, d). (lower n, d)) (columns f) = columns f"
    using assms by (intro map_idI) (force simp: names_def)
  then show ?thesis by (simp add: lower_columns_def)
qed

lemma frame_eqI: "columns f = columns g \<Longrightarrow> rows f = rows g \<Longrightarrow> (f :: frame) = g"
  by simp

lemma columns_insert_id: "columns (insert_id f) = (''id'', NumberT) # columns f"
  and rows_insert_id:
  "rows (insert_id f) = map2 (\<lambda>i r. Num (of_nat i) # r) [1..<Suc (length (rows f))] (rows f)"
  by (simp_all add: insert_id_def)

lemma names_insert_id: "names (insert_id f) = ''id'' # names f"
  by (simp add: names_def columns_insert_id)

lemma count_list_map_fst_upd:
  "map fst (map (\<lambda>(n, d). if n = x then (n, e) else (n, d)) cs) = map fst cs"
  by (induction cs) auto

lemma upd_upd:
  "map (\<lambda>(n, d). if n = x then (n, e) else (n, d))
     (map (\<lambda>(n, d). if n = x then (n, e) else (n, d)) cs)
   = map (\<lambda>(n, d). if n = x then (n, e) else (n, d)) cs"
  by (induction cs) auto

lemma map_lower_idem: "map lower (map lower ns) = map lower ns"
  by (simp add: lower_idem)

lemma length_created_at_texts: "length (created_at_texts fmt f) = length (rows f)"
  by (simp add: created_at_texts_def astype_str_def column_cells_def)

lemma length_parse_column: "length (parse_column parse texts) = length texts"
  by (simp add: parse_column_def)

lemma to_datetime_Coerce:
  "to_datetime parse Coerce texts =
     (if mixed_offsets (parse_column parse texts) then Inl ValueError
      else Inr (map stamp_of (parse_column parse texts)))"
  by (simp add: to_datetime_def Let_def)

lemma to_datetime_Raise:
  "Unparsable \<in> set (parse_column parse texts) \<Longrightarrow> to_datetime parse Raise texts = Inl ValueError"
  by (simp add: to_datetime_def Let_def)

lemma set_created_at_Inr_iff:
  "set_created_at parse fmt f = Inr g \<longleftrightarrow>
     \<not> mixed_offsets (parse_column parse (created_at_texts fmt f)) \<and>
     g = \<lparr>columns = map (\<lambda>(n, d). if n = ''created_at'' then (n, DatetimeT) else (n, d)) (columns f),
          rows = map2 (\<lambda>r s. map2 (\<lambda>(n, d) c. if n = ''created_at'' then s else c) (columns f) r)
                   (rows f) (map stamp_of (parse_column parse (created_at_texts fmt f)))\<rparr>"
  by (auto simp: set_created_at_def to_datetime_Coerce)

lemma set_created_at_frame:
  assumes "set_created_at parse fmt f = Inr g"
  shows columns_set_created_at:
    "columns g = map (\<lambda>(n, d). if n = ''created_at'' then (n, DatetimeT) else (n, d)) (columns f)"
    and rows_set_created_at:
    "rows g = map2 (\<lambda>r s. map2 (\<lambda>(n, d) c. if n = ''created_at'' then s else c) (columns f) r)
                (rows f) (map stamp_of (parse_column parse (created_at_texts fmt f)))"
    and names_set_created_at: "names g = names f"
    and length_set_created_at: "length (rows g) = length (rows f)"
proof -
  from assms show c: "columns g =
      map (\<lambda>(n, d). if n = ''created_at'' then (n, DatetimeT) else (n, d)) (columns f)"
    and r: "rows g = map2 (\<lambda>r s. map2 (\<lambda>(n, d) c. if n = ''created_at'' then s else c) (columns f) r)
                (rows f) (map stamp_of (parse_column parse (created_at_texts fmt f)))"
    by (simp_all add: set_created_at_Inr_iff)
  show "names g = names f" unfolding names_def c by (rule count_list_map_fst_upd)
  show "length (rows g) = length (rows f)"
    unfolding r by (simp add: length_parse_column length_created_at_texts)
qed

lemma clean_contacts_Inr_iff:
  assumes "\<not> df_empty f"
  shows "clean_contacts parse fmt f = Inr f' \<longleftrightarrow>
    str_accessor (lower_columns f) ''created_at'' = None \<and>
    (\<exists>dated. set_created_at parse fmt (lower_columns f) = Inr dated \<and>
       failing_object_columns (\<lambda>col. col \<noteq> ''created_at'') dated = [] \<and>
       f' = drop_duplicates
         (let stripped = map_cells (\<lambda>(n, d) c. if d = ObjectT \<and> n \<noteq> ''created_at'' then str_strip c else c)
                           dated
          in if ''id'' \<notin> set (map lower (names stripped)) then insert_id stripped else stripped))"
  using assms
  by (auto simp: clean_contacts_def strip_object_columns_def Let_def split: option.splits sum.splits)

lemma str_accessor_None: "str_accessor f col = None \<longleftrightarrow> count_list (names f) col = 1"
  by (auto simp: str_accessor_def)

lemma distinct_numbered:
  assumes "length ns = length rs" and "distinct ns"
  shows "distinct (map2 (\<lambda>i r. Num (of_nat i) # r) ns rs)"
proof -
  have "map hd (map2 (\<lambda>i r. Num (of_nat i) # r) ns rs) = map (\<lambda>i. Num (of_nat i)) ns"
    using assms(1) by (induction ns rs rule: list_induct2) simp_all
  moreover have "distinct (map (\<lambda>i. Num (of_nat i)) ns)"
    using assms(2) by (simp add: distinct_map inj_on_def)
  ultimately show ?thesis by (metis distinct_map)
qed

lemma index_of_hd: "index_of x (x # xs) = 0"
  by (simp add: index_of_def)

lemma surrogate_rows:
  assumes c: "clean_contacts parse fmt f = Inr f'"
    and ne: "\<not> df_empty f"
    and noid: "''id'' \<notin> set (map lower (names f))"
  shows "\<exists>dated. set_created_at parse fmt (lower_columns f) = Inr dated \<and>
           columns f' = (''id'', NumberT) # columns dated \<and>
           rows f' = map2 (\<lambda>i r. Num (of_nat i) # r) [1..<Suc (length (rows f))]
             (rows (map_cells (\<lambda>(n, d) c. if d = ObjectT \<and> n \<noteq> ''created_at'' then str_strip c else c)
                dated))"
proof -
  from c obtain dated where dated: "set_created_at parse fmt (lower_columns f) = Inr dated"
    and f'0: "f' = drop_duplicates
         (let stripped = map_cells (\<lambda>(n, d) c. if d = ObjectT \<and> n \<noteq> ''created_at'' then str_strip c else c)
                           dated
          in if ''id'' \<notin> set (map lower (names stripped)) then insert_id stripped else stripped)"
    unfolding clean_contacts_Inr_iff [OF ne] by blast
  define st where "st = map_cells (\<lambda>(n, d) c. if d = ObjectT \<and> n \<noteq> ''created_at'' then str_strip c else c)
              dated"
  have n: "names st = map lower (names f)"
    by (simp add: st_def names_map_cells names_set_created_at [OF dated] names_lower_columns)
  have l: "length (rows st) = length (rows f)"
    by (simp add: st_def rows_map_cells length_set_created_at [OF dated] rows_lower_columns)
  from noid have "''id'' \<notin> set (map lower (names st))" unfolding n map_lower_idem .
  with f'0 have f': "f' = drop_duplicates (insert_id st)"
    unfolding st_def Let_def by simp
  have cols: "columns f' = (''id'', NumberT) # columns dated"
    by (simp add: f' columns_drop_duplicates columns_insert_id st_def columns_map_cells)
  have "distinct (map2 (\<lambda>i r. Num (of_nat i) # r) [1..<Suc (length (rows st))] (rows st))"
    by (rule distinct_numbered) (simp_all del: upt_Suc)
  then have "rows f' = map2 (\<lambda>i r. Num (of_nat i) # r) [1..<Suc (length (rows f))] (rows st)"
    by (simp add: f' rows_drop_duplicates rows_insert_id drop_dups_distinct l del: upt_Suc)
  with dated cols show ?thesis unfolding st_def by blast
qed

lemma numbered_ids:
  "length ns = length rs \<Longrightarrow>
   map (\<lambda>r. cell_at r 0) (map2 (\<lambda>i r. Num (of_nat i) # r) ns rs) = map (\<lambda>i. Num (of_nat i)) ns"
  by (induction ns rs rule: list_induct2) (simp_all add: cell_at_def)

lemma numbered_tl:
  "length ns = length rs \<Longrightarrow> map tl (map2 (\<lambda>i r. Num (of_nat i) # r) ns rs) = rs"
  by (induction ns rs rule: list_induct2) simp_all

text \<open>
  Claim C7, amended.  When the source has rows and no \<open>id\<close> column, the normalized
  Contact table has the ids 1, 2, ..., n in the order of the source rows (n the number
  of source rows, none of which is dropped), so they are unique; after its id, each row
  is the cleaned source row of that position.
\<close>

theorem surrogate_ids:
  assumes "clean_contacts parse fmt f = Inr f'"
    and "\<not> df_empty f"
    and "''id'' \<notin> set (map lower (names f))"
  shows "map (cell_of f' ''id'') (rows f') = map (\<lambda>i. Num (of_nat i)) [1..<Suc (length (rows f))] \<and>
         distinct (map (cell_of f' ''id'') (rows f')) \<and>
         (\<exists>dated. set_created_at parse fmt (lower_columns f) = Inr dated \<and>
            map tl (rows f') =
              rows (map_cells (\<lambda>(n, d) c. if d = ObjectT \<and> n \<noteq> ''created_at'' then str_strip c else c)
                 dated))"
proof -
  from surrogate_rows [OF assms] obtain dated where
    dated: "set_created_at parse fmt (lower_columns f) = Inr dated"
    and cols: "columns f' = (''id'', NumberT) # columns dated"
    and rws: "rows f' = map2 (\<lambda>i r. Num (of_nat i) # r) [1..<Suc (length (rows f))]
             (rows (map_cells (\<lambda>(n, d) c. if d = ObjectT \<and> n \<noteq> ''created_at'' then str_strip c else c)
                dated))"
    by blast
  let ?st = "rows (map_cells (\<lambda>(n, d) c. if d = ObjectT \<and> n \<noteq> ''created_at'' then str_strip c else c)
              dated)"
  let ?ns = "[1..<Suc (length (rows f))]"
  have l: "length ?ns = length ?st"
    by (simp add: rows_map_cells length_set_created_at [OF dated] rows_lower_columns del: upt_Suc)
  have ix: "cell_of f' ''id'' = (\<lambda>r. cell_at r 0)"
    by (rule ext) (simp add: cell_of_def names_def cols index_of_hd)
  have ids: "map (cell_of f' ''id'') (rows f') = map (\<lambda>i. Num (of_nat i)) ?ns"
    unfolding rws ix using l by (rule numbered_ids)
  have tls: "map tl (rows f') = ?st"
    unfolding rws using l by (rule numbered_tl)
  have "distinct (map (\<lambda>i. Num (of_nat i) :: cell) ?ns)"
    by (simp add: distinct_map inj_on_def del: upt_Suc)
  with ids tls dated show ?thesis by simp
qed

text \<open>
  Claim C7 as stated fails when the source has an \<open>id\<close> column: normalization
  synthesizes no ids then and does not make the given ones unique, since only rows that
  are equal in every column are dropped.  Two contacts with the same \<open>id\<close> and different
  \<open>emails\<close> both stay.
\<close>

theorem provided_ids_counterexample:
  "clean_contacts sample_parse sample_fmt sample_contacts_with_id =
     Inr \<lparr>columns = [(''id'', NumberT), (''emails'', ObjectT), (''created_at'', DatetimeT)],
          rows = [[Num 7, Str ''ana@example.org'', Stamp 1705311000000000000],
                  [Num 7, Str ''bo@example.org'', Stamp 1705311000000000000]]\<rparr> \<and>
   \<not> distinct (map (cell_of
       \<lparr>columns = [(''id'', NumberT), (''emails'', ObjectT), (''created_at'', DatetimeT)],
        rows = [[Num 7, Str ''ana@example.org'', Stamp 1705311000000000000],
                [Num 7, Str ''bo@example.org'', Stamp 1705311000000000000]]\<rparr> ''id'')
     [[Num 7, Str ''ana@example.org'', Stamp 1705311000000000000],
      [Num 7, Str ''bo@example.org'', Stamp 1705311000000000000]])"
  by code_simp

theorem surrogate_ids_witness:
  "clean_contacts sample_parse sample_fmt sample_contacts = Inr sample_cleaned_contacts \<and>
   \<not> df_empty sample_contacts \<and>
   ''id'' \<notin> set (map lower (names sample_contacts)) \<and>
   map (cell_of sample_cleaned_contacts ''id'') (rows sample_cleaned_contacts) =
     [Num 1, Num 2, Num 3] \<and>
   distinct (map (cell_of sample_cleaned_contacts ''id'') (rows sample_cleaned_contacts))"
proof -
  have c: "clean_contacts sample_parse sample_fmt sample_contacts = Inr sample_cleaned_contacts"
    by code_simp
  have ne: "\<not> df_empty sample_contacts" by code_simp
  have noid: "''id'' \<notin> set (map lower (names sample_contacts))" by code_simp
  have n: "map (\<lambda>i. Num (of_nat i)) [1..<Suc (length (rows sample_contacts))] = [Num 1, Num 2, Num 3]"
    by code_simp
  note inst = surrogate_ids [OF c ne noid, unfolded n]
  from inst have i: "map (cell_of sample_cleaned_contacts ''id'') (rows sample_cleaned_contacts) =
     [Num 1, Num 2, Num 3]" by (rule conjunct1)
  from inst have d: "distinct (map (cell_of sample_cleaned_contacts ''id'') (rows sample_cleaned_contacts))"
    by (elim conjE)
  show ?thesis by (intro conjI c ne noid i d)
qed

lemma index_of_less: "x \<in> set xs \<Longrightarrow> index_of x xs < length xs"
  unfolding index_of_def by (induction xs) auto

lemma index_of_nth: "x \<in> set xs \<Longrightarrow> xs ! index_of x xs = x"
  unfolding index_of_def by (induction xs) auto

lemma index_of_Cons: "x \<noteq> y \<Longrightarrow> index_of x (y # xs) = Suc (index_of x xs)"
  by (simp add: index_of_def)

lemma cell_at_Cons: "cell_at (c # r) (Suc k) = cell_at r k"
  by (simp add: cell_at_def)

lemma cell_at_map2:
  assumes "length r = length cols" and "k < length cols"
  shows "cell_at (map2 h cols r) k = h (cols ! k) (cell_at r k)"
  using assms by (simp add: cell_at_def)

lemma count_list_distinct:
  "distinct xs \<Longrightarrow> count_list xs x = (if x \<in> set xs then 1 else 0)"
  by (induction xs) auto

lemma count_list_pos: "count_list xs x = Suc 0 \<Longrightarrow> x \<in> set xs"
  by (induction xs) (auto split: if_splits)

text \<open>
  Writing the timestamps leaves the cells of every other column as they are, so the
  strip loop fails after it exactly when it would fail before it.
\<close>

lemma column_cells_set_created_at:
  assumes d: "set_created_at parse fmt F = Inr dated"
    and wf: "wf_frame F"
    and n: "col \<in> set (names F)" "col \<noteq> ''created_at''"
  shows "column_cells dated col = column_cells F col"
proof -
  define k where "k = index_of col (names F)"
  define stamps where "stamps = map stamp_of (parse_column parse (created_at_texts fmt F))"
  define G where "G = (\<lambda>(r :: cell list) (s :: cell).
    map2 (\<lambda>(n :: string, d :: dtype) c. if n = ''created_at'' then s else c) (columns F) r)"
  have rd: "rows dated = map2 G (rows F) stamps"
    unfolding G_def stamps_def by (rule rows_set_created_at [OF d])
  have ls: "length stamps = length (rows F)"
    by (simp add: stamps_def length_parse_column length_created_at_texts)
  have kl: "k < length (columns F)"
    using index_of_less [OF n(1)] by (simp add: k_def names_def)
  have kn: "fst (columns F ! k) = col"
    using index_of_nth [OF n(1)] kl by (simp add: k_def names_def)
  have cell: "cell_at (G r s) k = cell_at r k" if "r \<in> set (rows F)" for r s
  proof -
    from wf that have lr: "length r = length (columns F)"
      by (simp add: wf_frame_def list_all_iff)
    obtain m e where me: "columns F ! k = (m, e)" by (cases "columns F ! k")
    with kn n(2) have "m \<noteq> ''created_at''" by simp
    then show ?thesis unfolding G_def using lr kl by (simp add: cell_at_map2 me)
  qed
  have "column_cells dated col = map (\<lambda>r. cell_at r k) (map2 G (rows F) stamps)"
    by (simp add: column_cells_def cell_of_def names_set_created_at [OF d] k_def rd)
  also have "\<dots> = map (\<lambda>(r, s). cell_at (G r s) k) (zip (rows F) stamps)"
    by (simp add: case_prod_unfold)
  also have "\<dots> = map (\<lambda>(r, s). cell_at r k) (zip (rows F) stamps)"
    by (rule map_cong) (auto simp: cell dest: set_zip_leftD)
  also have "\<dots> = map (\<lambda>r. cell_at r k) (map fst (zip (rows F) stamps))"
    by (simp add: case_prod_unfold)
  also have "map fst (zip (rows F) stamps) = rows F" using ls by simp
  finally show ?thesis by (simp add: column_cells_def cell_of_def k_def)
qed

lemma object_columns_dated:
  assumes "\<not> Q ''created_at''"
  shows "filter Q (map fst (filter (\<lambda>(n, d). d = ObjectT)
           (map (\<lambda>(n, d). if n = ''created_at'' then (n, DatetimeT) else (n, d)) cs))) =
         filter Q (map fst (filter (\<lambda>(n, d). d = ObjectT) cs))"
  using assms by (induction cs) (auto split: if_splits)

lemma failing_object_columns_set_created_at:
  assumes d: "set_created_at parse fmt F = Inr dated" and wf: "wf_frame F"
  shows "failing_object_columns (\<lambda>col. col \<noteq> ''created_at'') dated =
         failing_object_columns (\<lambda>col. col \<noteq> ''created_at'') F"
proof -
  let ?P = "\<lambda>g col. col \<noteq> ''created_at'' \<and>
      (count_list (names g) col > 1 \<or> \<not> str_values_ok (column_cells g col))"
  have "failing_object_columns (\<lambda>col. col \<noteq> ''created_at'') dated =
        filter (?P dated) (object_columns F)"
    unfolding failing_object_columns_def object_columns_def columns_set_created_at [OF d]
    by (rule object_columns_dated) simp
  also have "\<dots> = filter (?P F) (object_columns F)"
  proof (rule filter_cong [OF refl])
    fix col assume "col \<in> set (object_columns F)"
    then have "col \<in> set (names F)" by (auto simp: object_columns_def names_def)
    then show "?P dated col = ?P F col"
      using column_cells_set_created_at [OF d wf, of col]
      by (auto simp: names_set_created_at [OF d])
  qed
  finally show ?thesis by (simp add: failing_object_columns_def)
qed

lemma map_map2: "map f (map2 g xs ys) = map2 (\<lambda>x y. f (g x y)) xs ys"
  by (simp add: case_prod_unfold)

text \<open>The rows of the Contact table after the timestamp column is written and the texts
  of the other columns are stripped.\<close>

lemma stripped_rows:
  assumes d: "set_created_at parse fmt F = Inr dated"
  shows "rows (map_cells (\<lambda>(n, d) c. if d = ObjectT \<and> n \<noteq> ''created_at'' then str_strip c else c)
           dated) =
         map2 (\<lambda>r p. map2 (\<lambda>(n, d) c. if n = ''created_at'' then stamp_of p
                                      else if d = ObjectT then str_strip c else c)
                        (columns F) r)
           (rows F) (parse_column parse (created_at_texts fmt F))"
proof -
  let ?uA = "\<lambda>(n :: string, d :: dtype). if n = ''created_at'' then (n, DatetimeT) else (n, d)"
  let ?hS = "\<lambda>(n :: string, d :: dtype) c.
      if d = ObjectT \<and> n \<noteq> ''created_at'' then str_strip c else c"
  have cell: "?hS (?uA col) ((\<lambda>(n, d) c. if n = ''created_at'' then s else c) col x) =
      (\<lambda>(n, d) c. if n = ''created_at'' then s else if d = ObjectT then str_strip c else c) col x"
    for col s x by (cases col) simp
  have row: "map2 ?hS (map ?uA (columns F))
          (map2 (\<lambda>(n, d) c. if n = ''created_at'' then s else c) (columns F) r) =
        map2 (\<lambda>(n, d) c. if n = ''created_at'' then s else if d = ObjectT then str_strip c else c)
          (columns F) r" for r s
    unfolding map2_map_left map2_comp cell ..
  show ?thesis
    unfolding rows_map_cells columns_set_created_at [OF d] rows_set_created_at [OF d]
      map_map2 row
    by (simp add: zip_map2 case_prod_unfold)
qed

lemma created_at_rows:
  assumes ne: "\<not> df_empty f"
    and wf: "wf_frame f"
    and ca: "count_list (map lower (names f)) ''created_at'' = 1"
    and ok: "failing_object_columns (\<lambda>col. col \<noteq> ''created_at'') (lower_columns f) = []"
    and nomix: "\<not> mixed_offsets (parse_column parse (created_at_texts fmt (lower_columns f)))"
  shows "\<exists>f'. clean_contacts parse fmt f = Inr f' \<and>
           rows f' =
             (let R = map2 (\<lambda>r p. map2 (\<lambda>(n, d) c. if n = ''created_at'' then stamp_of p
                                                  else if d = ObjectT then str_strip c else c)
                                    (columns (lower_columns f)) r)
                        (rows f) (parse_column parse (created_at_texts fmt (lower_columns f)))
              in if ''id'' \<in> set (map lower (names f)) then drop_dups R
                 else map2 (\<lambda>i r. Num (of_nat i) # r) [1..<Suc (length (rows f))] R)"
proof -
  let ?F = "lower_columns f"
  let ?hS = "\<lambda>(n :: string, d :: dtype) c.
      if d = ObjectT \<and> n \<noteq> ''created_at'' then str_strip c else c"
  define R where "R = map2 (\<lambda>r p. map2 (\<lambda>(n, d) c. if n = ''created_at'' then stamp_of p
                                                  else if d = ObjectT then str_strip c else c)
                                    (columns ?F) r)
                        (rows f) (parse_column parse (created_at_texts fmt ?F))"
  from nomix obtain dated where d: "set_created_at parse fmt ?F = Inr dated"
    by (simp add: set_created_at_Inr_iff)
  have wfF: "wf_frame ?F" using wf by (simp add: wf_frame_def lower_columns_def)
  have acc: "str_accessor ?F ''created_at'' = None"
    using ca by (simp add: str_accessor_None names_lower_columns)
  have ok': "failing_object_columns (\<lambda>col. col \<noteq> ''created_at'') dated = []"
    using failing_object_columns_set_created_at [OF d wfF] ok by simp
  define st where "st = map_cells ?hS dated"
  have st_rows: "rows st = R"
    unfolding st_def R_def using stripped_rows [OF d] by (simp add: rows_lower_columns)
  have st_names: "names st = map lower (names f)"
    by (simp add: st_def names_map_cells names_set_created_at [OF d] names_lower_columns)
  have lR: "length R = length (rows f)"
    by (simp add: R_def length_parse_column length_created_at_texts rows_lower_columns)
  define f' where "f' = drop_duplicates (if ''id'' \<notin> set (map lower (names st)) then insert_id st else st)"
  have c: "clean_contacts parse fmt f = Inr f'"
    unfolding clean_contacts_Inr_iff [OF ne] Let_def f'_def st_def using acc d ok' by simp
  have "rows f' = (if ''id'' \<in> set (map lower (names f)) then drop_dups R
                   else map2 (\<lambda>i r. Num (of_nat i) # r) [1..<Suc (length (rows f))] R)"
  proof (cases "''id'' \<in> set (map lower (names f))")
    case True
    then have "''id'' \<in> set (map lower (names st))" unfolding st_names map_lower_idem .
    with True show ?thesis by (simp add: f'_def rows_drop_duplicates st_rows)
  next
    case False
    then have "''id'' \<notin> set (map lower (names st))" unfolding st_names map_lower_idem .
    moreover have "distinct (map2 (\<lambda>i r. Num (of_nat i) # r) [1..<Suc (length R)] R)"
      by (rule distinct_numbered) (simp_all del: upt_Suc)
    ultimately show ?thesis using False
      by (simp add: f'_def rows_drop_duplicates rows_insert_id st_rows drop_dups_distinct lR
          del: upt_Suc)
  qed
  with c show ?thesis unfolding R_def Let_def by blast
qed

lemma created_at_texts_rows:
  "created_at_texts fmt F =
     map (\<lambda>r. strip (re_sub_parens
                 (case cell_of F ''created_at'' r of
                    Str s \<Rightarrow> s
                  | c \<Rightarrow> fmt (column_cells F ''created_at'') c)))
       (rows F)"
  by (auto simp: created_at_texts_def astype_str_def column_cells_def split: cell.splits)

text \<open>
  All the ways in which normalization of a Contact table with rows fails: the column
  \<open>created_at\<close> is missing or repeated, its timestamps mix UTC offsets, or the \<open>str\<close>
  accessor rejects another \<open>object\<close> column.  Unparsable texts are not among them: they
  carry no offset.
\<close>

lemma offsets_unparsable: "offsets (filter (\<lambda>p. p \<noteq> Unparsable) ps) = offsets ps"
  by (induction ps) (auto simp: offsets_def)

lemma mixed_offsets_unparsable:
  "mixed_offsets (filter (\<lambda>p. p \<noteq> Unparsable) ps) = mixed_offsets ps"
  by (simp add: mixed_offsets_def offsets_unparsable)

lemma clean_contacts_raises_iff:
  assumes ne: "\<not> df_empty f" and wf: "wf_frame f"
  shows "(\<exists>e. clean_contacts parse fmt f = Inl e) \<longleftrightarrow>
           count_list (map lower (names f)) ''created_at'' \<noteq> 1 \<or>
           mixed_offsets (parse_column parse (created_at_texts fmt (lower_columns f))) \<or>
           failing_object_columns (\<lambda>col. col \<noteq> ''created_at'') (lower_columns f) \<noteq> []"
proof (cases "count_list (map lower (names f)) ''created_at'' = 1")
  case False
  then have "str_accessor (lower_columns f) ''created_at'' \<noteq> None"
    by (simp add: str_accessor_None names_lower_columns)
  with ne False show ?thesis by (auto simp: clean_contacts_def)
next
  case cnt: True
  then have acc: "str_accessor (lower_columns f) ''created_at'' = None"
    by (simp add: str_accessor_None names_lower_columns)
  show ?thesis
  proof (cases "mixed_offsets (parse_column parse (created_at_texts fmt (lower_columns f)))")
    case True
    then have "set_created_at parse fmt (lower_columns f) = Inl ValueError"
      by (simp add: set_created_at_def to_datetime_Coerce)
    with ne acc True show ?thesis by (simp add: clean_contacts_def)
  next
    case nomix: False
    then obtain dated where d: "set_created_at parse fmt (lower_columns f) = Inr dated"
      by (simp add: set_created_at_Inr_iff)
    have wfF: "wf_frame (lower_columns f)" using wf by (simp add: wf_frame_def lower_columns_def)
    note tr = failing_object_columns_set_created_at [OF d wfF]
    show ?thesis
    proof (cases "failing_object_columns (\<lambda>col. col \<noteq> ''created_at'') (lower_columns f) = []")
      case True
      from created_at_rows [OF ne wf cnt True nomix, of ] obtain f' where
        "clean_contacts parse fmt f = Inr f'" by blast
      with cnt nomix True show ?thesis by simp
    next
      case False
      with tr have "strip_object_columns (\<lambda>col. col \<noteq> ''created_at'') dated = Inl AttributeError"
        by (simp add: strip_object_columns_def)
      with ne acc d False show ?thesis by (simp add: clean_contacts_def)
    qed
  qed
qed

text \<open>
  Idempotence.  Cleaning a cleaned Entity, TechStack or mapping table returns it
  unchanged (\<open>clean_table_idem\<close>).  For the Contact table, the second pass writes the
  timestamp column of the first pass as texts and reads them again, with two functions
  of pandas: the table is unchanged when \<open>pd.to_datetime\<close> reads back every column of
  timestamps and missing values that \<open>astype(str)\<close> wrote (\<open>clean_contacts_idem\<close>).
\<close>

lemma stamp_of_cases: "stamp_of p = Null \<or> (\<exists>t. stamp_of p = Stamp t)"
  by (cases p) (simp_all add: stamp_of_def)

lemma str_strip_cases: "str_strip c = Null \<or> (\<exists>s. str_strip c = Str s)"
  by (cases c) (simp_all add: str_strip_def)

lemma str_values_ok_texts:
  assumes "\<And>c. c \<in> set cs \<Longrightarrow> c = Null \<or> (\<exists>s. c = Str s)"
  shows "str_values_ok cs"
proof -
  define vs where "vs = filter (\<lambda>c. c \<noteq> Null) cs"
  have str: "\<exists>s. c = Str s" if "c \<in> set vs" for c
    using that assms [of c] by (auto simp: vs_def)
  have "\<not> list_all is_num vs \<and> \<not> list_all is_stamp vs" if "vs \<noteq> []"
  proof -
    from that obtain v vs' where v: "vs = v # vs'" by (cases vs) auto
    with str [of v] obtain s where "v = Str s" by auto
    with v show ?thesis by simp
  qed
  then show ?thesis unfolding str_values_ok_def vs_def [symmetric] Let_def by blast
qed

lemma index_of_unique:
  "count_list ns x = 1 \<Longrightarrow> i < length ns \<Longrightarrow> ns ! i = x \<Longrightarrow> index_of x ns = i"
proof (induction ns arbitrary: i)
  case Nil
  then show ?case by simp
next
  case (Cons n ns)
  show ?case
  proof (cases "n = x")
    case True
    with Cons.prems(1) have "count_list ns x = 0" by simp
    then have notin: "x \<notin> set ns" by (simp add: count_list_0_iff)
    have "i = 0"
    proof (cases i)
      case 0
      then show ?thesis .
    next
      case (Suc j)
      with Cons.prems(2,3) have "j < length ns" "ns ! j = x" by simp_all
      with notin show ?thesis by (metis nth_mem)
    qed
    with True show ?thesis by (simp add: index_of_def)
  next
    case False
    with Cons.prems(3) obtain j where j: "i = Suc j" by (cases i) auto
    with Cons.prems False have "count_list ns x = 1" "j < length ns" "ns ! j = x" by simp_all
    from Cons.IH [OF this] False j show ?thesis by (simp add: index_of_Cons)
  qed
qed

lemma nth_index_of_pair:
  assumes "(x, d) \<in> set cs" and "count_list (map fst cs) x = 1"
  shows "cs ! index_of x (map fst cs) = (x, d)"
proof -
  from assms(1) obtain i where i: "i < length cs" "cs ! i = (x, d)" by (auto simp: in_set_conv_nth)
  then have "index_of x (map fst cs) = i"
    by (intro index_of_unique [OF assms(2)]) simp_all
  with i show ?thesis by simp
qed

lemma map2_self: "map2 f xs (map g xs) = map (\<lambda>x. f x (g x)) xs"
  by (induction xs) simp_all

lemma set_own_cell:
  assumes "count_list (map fst cols) x = 1" and "length r \<le> length cols"
  shows "map2 (\<lambda>(n, d) c. if n = x then cell_at r (index_of x (map fst cols)) else c) cols r = r"
proof (rule nth_equalityI)
  show "length (map2 (\<lambda>(n, d) c. if n = x then cell_at r (index_of x (map fst cols)) else c) cols r)
        = length r"
    using assms(2) by simp
next
  fix i
  assume "i < length (map2 (\<lambda>(n, d) c. if n = x then cell_at r (index_of x (map fst cols)) else c)
                        cols r)"
  then have i: "i < length r" "i < length cols" by simp_all
  obtain n d where nd: "cols ! i = (n, d)" by (cases "cols ! i")
  show "map2 (\<lambda>(n, d) c. if n = x then cell_at r (index_of x (map fst cols)) else c) cols r ! i
        = r ! i"
  proof (cases "n = x")
    case True
    have "index_of x (map fst cols) = i"
      using i(2) nd True by (intro index_of_unique [OF assms(1)]) simp_all
    with i nd True show ?thesis by (simp add: cell_at_def)
  next
    case False
    with i nd show ?thesis by simp
  qed
qed

lemma object_column_cell:
  assumes col: "col \<in> set (object_columns F)" and cnt: "count_list (names F) col = 1"
  shows "index_of col (names F) < length (columns F)"
    and "columns F ! index_of col (names F) = (col, ObjectT)"
proof -
  from col have m: "(col, ObjectT) \<in> set (columns F)" by (auto simp: object_columns_def)
  then have "col \<in> set (names F)" by (force simp: names_def)
  from index_of_less [OF this] show "index_of col (names F) < length (columns F)"
    by (simp add: names_def)
  from nth_index_of_pair [OF m] cnt show "columns F ! index_of col (names F) = (col, ObjectT)"
    by (simp add: names_def)
qed

lemma failing_object_columns_nil:
  assumes objs: "\<And>col. col \<in> set (object_columns F) \<Longrightarrow> keep col \<Longrightarrow> count_list (names F) col = 1"
    and cells: "\<And>r k col. r \<in> set (rows F) \<Longrightarrow> k < length (columns F) \<Longrightarrow>
        columns F ! k = (col, ObjectT) \<Longrightarrow> keep col \<Longrightarrow>
        cell_at r k = Null \<or> (\<exists>s. cell_at r k = Str s)"
  shows "failing_object_columns keep F = []"
proof -
  have "\<not> (keep col \<and> (count_list (names F) col > 1 \<or> \<not> str_values_ok (column_cells F col)))"
    if col: "col \<in> set (object_columns F)" for col
  proof (cases "keep col")
    case False
    then show ?thesis by simp
  next
    case True
    note cnt = objs [OF col True]
    note k = object_column_cell [OF col cnt]
    have "str_values_ok (column_cells F col)"
    proof (rule str_values_ok_texts)
      fix c assume "c \<in> set (column_cells F col)"
      then obtain r where "r \<in> set (rows F)" and "c = cell_at r (index_of col (names F))"
        by (auto simp: column_cells_def cell_of_def)
      with cells [OF this(1) k True] show "c = Null \<or> (\<exists>s. c = Str s)" by simp
    qed
    with cnt show ?thesis by simp
  qed
  then show ?thesis by (simp add: failing_object_columns_def filter_empty_conv)
qed

lemma failing_object_columns_count:
  assumes "failing_object_columns keep F = []"
    and "col \<in> set (object_columns F)" and "keep col"
  shows "count_list (names F) col = 1"
proof -
  from assms have "\<not> count_list (names F) col > 1"
    by (auto simp: failing_object_columns_def filter_empty_conv)
  moreover from assms(2) have "col \<in> set (names F)"
    by (force simp: object_columns_def names_def)
  then have "count_list (names F) col \<noteq> 0" by (simp add: count_list_0_iff)
  ultimately show ?thesis by simp
qed

lemma clean_table_idem:
  assumes "clean_table f = Inr f'"
  shows "clean_table f' = Inr f'"
proof (cases "df_empty f")
  case True
  with assms have "f' = f" by (simp add: clean_table_def)
  with True show ?thesis by (simp add: clean_table_def)
next
  case False
  let ?h = "\<lambda>(n, d) c. if d = ObjectT \<and> True then str_strip c else c"
  let ?f1 = "lower_columns f"
  from assms False have ok: "failing_object_columns (\<lambda>col. True) ?f1 = []"
    and f': "f' = drop_duplicates (map_cells ?h ?f1)"
    by (auto simp: clean_table_def strip_object_columns_def split: if_splits)
  have cols: "columns f' = columns ?f1"
    by (simp add: f' columns_drop_duplicates columns_map_cells)
  have nms: "names f' = names ?f1" by (simp add: names_def cols)
  have objs: "object_columns f' = object_columns ?f1" by (simp add: object_columns_def cols)
  have rws: "rows f' = drop_dups (map (map2 ?h (columns ?f1)) (rows f))"
    by (simp add: f' rows_drop_duplicates rows_map_cells rows_lower_columns)
  have ne: "\<not> df_empty f'"
    using False by (simp add: df_empty_def cols rws columns_lower_columns drop_dups_nil)
  have low: "lower_columns f' = f'"
    by (rule lower_columns_fix)
      (auto simp: names_def cols columns_lower_columns lower_idem)
  have ok': "failing_object_columns (\<lambda>col. True) f' = []"
  proof (rule failing_object_columns_nil)
    fix col assume "col \<in> set (object_columns f')"
    then show "count_list (names f') col = 1"
      unfolding objs nms using failing_object_columns_count [OF ok] by simp
  next
    fix r' k col
    assume r': "r' \<in> set (rows f')" and k: "k < length (columns f')"
      and c: "columns f' ! k = (col, ObjectT)"
    from r' obtain r where r: "r' = map2 ?h (columns ?f1) r"
      by (auto simp: rws set_drop_dups)
    show "cell_at r' k = Null \<or> (\<exists>s. cell_at r' k = Str s)"
    proof (cases "k < length r")
      case True
      with k c have "cell_at r' k = str_strip (r ! k)"
        unfolding r cols [symmetric] by (simp add: cell_at_def)
      with str_strip_cases [of "r ! k"] show ?thesis by simp
    next
      case False
      then show ?thesis unfolding r by (simp add: cell_at_def)
    qed
  qed
  have "map (map2 ?h (columns f')) (rows f') = rows f'"
  proof (rule map_idI)
    fix r' assume "r' \<in> set (rows f')"
    then obtain r where r': "r' = map2 ?h (columns ?f1) r"
      by (auto simp: rws set_drop_dups)
    show "map2 ?h (columns f') r' = r'"
      unfolding r' cols by (rule map2_idem) (auto simp: str_strip_idem)
  qed
  then have "rows (drop_duplicates (map_cells ?h f')) = rows f'"
    by (simp add: rows_drop_duplicates rows_map_cells rws drop_dups_idem)
  moreover have "columns (drop_duplicates (map_cells ?h f')) = columns f'"
    by (simp add: columns_drop_duplicates columns_map_cells)
  ultimately have "drop_duplicates (map_cells ?h f') = f'" by (intro frame_eqI)
  with ne low ok' show ?thesis
    by (simp add: clean_table_def strip_object_columns_def)
qed

lemma clean_contacts_fix:
  assumes ne: "\<not> df_empty F"
    and low: "\<And>n. n \<in> set (names F) \<Longrightarrow> lower n = n"
    and cnt: "count_list (names F) ''created_at'' = 1"
    and dt: "map (\<lambda>(n, d). if n = ''created_at'' then (n, DatetimeT) else (n, d)) (columns F) = columns F"
    and hasid: "''id'' \<in> set (names F)"
    and dist: "distinct (rows F)"
    and objs: "\<And>col. col \<in> set (object_columns F) \<Longrightarrow> col \<noteq> ''created_at'' \<Longrightarrow>
        count_list (names F) col = 1"
    and len: "\<And>r. r \<in> set (rows F) \<Longrightarrow> length r \<le> length (columns F)"
    and stable: "\<And>r. r \<in> set (rows F) \<Longrightarrow>
        map2 (\<lambda>(n, d) c. if d = ObjectT \<and> n \<noteq> ''created_at'' then str_strip c else c) (columns F) r = r"
    and stamps: "\<And>r k. r \<in> set (rows F) \<Longrightarrow> k < length (columns F) \<Longrightarrow>
        fst (columns F ! k) = ''created_at'' \<Longrightarrow> cell_at r k = Null \<or> (\<exists>t. cell_at r k = Stamp t)"
    and texts: "\<And>r k col. r \<in> set (rows F) \<Longrightarrow> k < length (columns F) \<Longrightarrow>
        columns F ! k = (col, ObjectT) \<Longrightarrow> col \<noteq> ''created_at'' \<Longrightarrow>
        cell_at r k = Null \<or> (\<exists>s. cell_at r k = Str s)"
    and rt: "\<And>cs. (\<And>c. c \<in> set cs \<Longrightarrow> c = Null \<or> (\<exists>t. c = Stamp t)) \<Longrightarrow>
        to_datetime parse Coerce (map (\<lambda>s. strip (re_sub_parens s)) (astype_str fmt cs)) = Inr cs"
  shows "clean_contacts parse fmt F = Inr F"
proof -
  let ?hS = "\<lambda>(n :: string, d :: dtype) c.
      if d = ObjectT \<and> n \<noteq> ''created_at'' then str_strip c else c"
  define k0 where "k0 = index_of ''created_at'' (names F)"
  define cs where "cs = column_cells F ''created_at''"
  have lowF: "lower_columns F = F" using low by (rule lower_columns_fix)
  have mem: "''created_at'' \<in> set (names F)" using cnt by (intro count_list_pos) simp
  have k0l: "k0 < length (columns F)"
    using index_of_less [OF mem] by (simp add: k0_def names_def)
  have k0n: "fst (columns F ! k0) = ''created_at''"
    using index_of_nth [OF mem] k0l by (simp add: k0_def names_def)
  have cs: "cs = map (\<lambda>r. cell_at r k0) (rows F)"
    by (simp add: cs_def column_cells_def cell_of_def k0_def)
  have "to_datetime parse Coerce (created_at_texts fmt F) = Inr cs"
    unfolding created_at_texts_def cs_def [symmetric]
  proof (rule rt)
    fix c assume "c \<in> set cs"
    then obtain r where "r \<in> set (rows F)" "c = cell_at r k0" by (auto simp: cs)
    with stamps [OF this(1) k0l k0n] show "c = Null \<or> (\<exists>t. c = Stamp t)" by simp
  qed
  then have sc: "set_created_at parse fmt F =
      Inr \<lparr>columns = columns F,
           rows = map2 (\<lambda>r s. map2 (\<lambda>(n, d) c. if n = ''created_at'' then s else c) (columns F) r)
                    (rows F) cs\<rparr>"
    by (simp add: set_created_at_def dt)
  have "map2 (\<lambda>r s. map2 (\<lambda>(n, d) c. if n = ''created_at'' then s else c) (columns F) r)
          (rows F) cs = rows F"
    unfolding cs map2_self
  proof (rule map_idI)
    fix r assume "r \<in> set (rows F)"
    from cnt have "count_list (map fst (columns F)) ''created_at'' = 1" by (simp add: names_def)
    from set_own_cell [OF this len [OF \<open>r \<in> set (rows F)\<close>]]
    show "map2 (\<lambda>(n, d) c. if n = ''created_at'' then cell_at r k0 else c) (columns F) r = r"
      unfolding k0_def names_def .
  qed
  with sc have sF: "set_created_at parse fmt F = Inr F" by simp
  have fail: "failing_object_columns (\<lambda>col. col \<noteq> ''created_at'') F = []"
    using objs texts by (rule failing_object_columns_nil)
  have "rows (map_cells ?hS F) = rows F"
    using stable by (simp add: rows_map_cells map_idI)
  then have F3: "map_cells ?hS F = F" by (intro frame_eqI) (simp_all add: columns_map_cells)
  have "map lower (names F) = names F" using low by (simp add: map_idI)
  with hasid have id3: "''id'' \<in> set (map lower (names F))" by simp
  have dd: "drop_duplicates F = F" using dist by (simp add: drop_duplicates_def drop_dups_distinct)
  have acc: "str_accessor F ''created_at'' = None" using cnt by (simp add: str_accessor_None)
  show ?thesis
    unfolding clean_contacts_Inr_iff [OF ne] lowF
    using acc sF fail id3 dd by (simp add: Let_def F3)
qed

lemma clean_contacts_idem:
  assumes rt: "\<And>cs. (\<And>c. c \<in> set cs \<Longrightarrow> c = Null \<or> (\<exists>t. c = Stamp t)) \<Longrightarrow>
        to_datetime parse Coerce (map (\<lambda>s. strip (re_sub_parens s)) (astype_str fmt cs)) = Inr cs"
    and c: "clean_contacts parse fmt f = Inr f'"
  shows "clean_contacts parse fmt f' = Inr f'"
proof (cases "df_empty f")
  case True
  with c have "f' = f" by (simp add: clean_contacts_def)
  with True show ?thesis by (simp add: clean_contacts_def)
next
  case False
  define uA :: "string \<times> dtype \<Rightarrow> string \<times> dtype"
    where "uA = (\<lambda>(n, d). if n = ''created_at'' then (n, DatetimeT) else (n, d))"
  define hS where "hS = (\<lambda>(n :: string, d :: dtype) c.
    if d = ObjectT \<and> n \<noteq> ''created_at'' then str_strip c else c)"
  define nrm where "nrm = (\<lambda>p (n :: string, d :: dtype) c.
    if n = ''created_at'' then stamp_of p else if d = ObjectT then str_strip c else c)"
  define cols where "cols = columns (lower_columns f)"
  define C1 where "C1 = map uA cols"
  define R2 where "R2 = map2 (\<lambda>r p. map2 (nrm p) cols r) (rows f)
      (parse_column parse (created_at_texts fmt (lower_columns f)))"
  from c obtain dated where acc: "str_accessor (lower_columns f) ''created_at'' = None"
    and dated: "set_created_at parse fmt (lower_columns f) = Inr dated"
    and fail: "failing_object_columns (\<lambda>col. col \<noteq> ''created_at'') dated = []"
    and f'0: "f' = drop_duplicates
         (let stripped = map_cells (\<lambda>(n, d) c. if d = ObjectT \<and> n \<noteq> ''created_at'' then str_strip c else c)
                           dated
          in if ''id'' \<notin> set (map lower (names stripped)) then insert_id stripped else stripped)"
    unfolding clean_contacts_Inr_iff [OF False] by blast
  define st where "st = map_cells hS dated"
  have f': "f' = drop_duplicates (if ''id'' \<notin> set (map lower (names st)) then insert_id st else st)"
    using f'0 unfolding st_def hS_def Let_def .
  have st_cols: "columns st = C1"
    by (simp add: st_def columns_map_cells columns_set_created_at [OF dated] C1_def cols_def uA_def)
  have st_rows: "rows st = R2"
    unfolding st_def hS_def R2_def nrm_def cols_def
    using stripped_rows [OF dated] by (simp add: rows_lower_columns)
  have fst_cols: "map fst cols = map lower (names f)"
    using names_lower_columns [of f] by (simp add: cols_def names_def)
  have fst_C1: "map fst C1 = map fst cols"
    unfolding C1_def uA_def by (rule count_list_map_fst_upd)
  have st_names: "names st = map lower (names f)"
    by (simp add: names_def st_cols fst_C1 fst_cols)
  have low_C1: "lower n = n" if "n \<in> set (map fst C1)" for n
    using that by (auto simp: fst_C1 fst_cols lower_idem)
  have uA_C1: "map uA C1 = C1" unfolding C1_def uA_def by (rule upd_upd)
  have lC1: "length C1 = length cols" by (simp add: C1_def)
  have cnt: "count_list (map fst C1) ''created_at'' = 1"
    using acc by (simp add: str_accessor_None names_lower_columns fst_C1 fst_cols)
  have obj_dated: "object_columns dated = map fst (filter (\<lambda>(n, d). d = ObjectT) C1)"
    by (simp add: object_columns_def columns_set_created_at [OF dated] C1_def cols_def uA_def)
  have names_dated: "names dated = map fst C1"
    by (simp add: names_set_created_at [OF dated] names_lower_columns fst_C1 fst_cols)
  have objC1: "count_list (map fst C1) col = 1"
    if "col \<in> set (map fst (filter (\<lambda>(n, d). d = ObjectT) C1))" "col \<noteq> ''created_at''" for col
    using failing_object_columns_count [OF fail, of col] that
    by (simp add: obj_dated names_dated)
  have lR2: "length R2 = length (rows f)"
    by (simp add: R2_def length_parse_column length_created_at_texts rows_lower_columns)
  have R2_ne: "R2 \<noteq> []" using False lR2 by (cases R2) (auto simp: df_empty_def)
  have C1_ne: "C1 \<noteq> []" using False by (simp add: C1_def cols_def df_empty_def columns_lower_columns)
  have R2E: "\<exists>r p. r' = map2 (nrm p) cols r" if "r' \<in> set R2" for r'
    using that unfolding R2_def by (auto simp: set_zip)
  have hS_nrm: "hS (uA col) (nrm p col x) = nrm p col x" for col p x
    by (cases col) (simp add: hS_def nrm_def uA_def str_strip_idem)
  have stable: "map2 hS C1 r' = r'" if "r' \<in> set R2" for r'
  proof -
    from R2E [OF that] obtain r p where r': "r' = map2 (nrm p) cols r" by blast
    show ?thesis unfolding r' C1_def map2_map_left map2_comp hS_nrm ..
  qed
  have len: "length r' \<le> length C1" if "r' \<in> set R2" for r'
    using R2E [OF that] by (auto simp: lC1)
  have cell: "cell_at r' k = (if k < length r then nrm p (cols ! k) (r ! k) else Null)"
    if "r' = map2 (nrm p) cols r" "k < length C1" for r' r p k
    using that by (simp add: cell_at_def lC1)
  have stamps: "cell_at r' k = Null \<or> (\<exists>t. cell_at r' k = Stamp t)"
    if "r' \<in> set R2" "k < length C1" "fst (C1 ! k) = ''created_at''" for r' k
  proof -
    from R2E [OF that(1)] obtain r p where r': "r' = map2 (nrm p) cols r" by blast
    obtain n d where nd: "cols ! k = (n, d)" by (cases "cols ! k")
    with that(2,3) have "n = ''created_at''"
      by (simp add: C1_def uA_def split: if_splits)
    with cell [OF r' that(2)] nd stamp_of_cases [of p] show ?thesis
      by (auto simp: nrm_def)
  qed
  have texts: "cell_at r' k = Null \<or> (\<exists>s. cell_at r' k = Str s)"
    if "r' \<in> set R2" "k < length C1" "C1 ! k = (col, ObjectT)" "col \<noteq> ''created_at''" for r' k col
  proof -
    from R2E [OF that(1)] obtain r p where r': "r' = map2 (nrm p) cols r" by blast
    from that(2,3,4) have "cols ! k = (col, ObjectT)"
      by (cases "cols ! k") (simp add: C1_def uA_def split: if_splits)
    with cell [OF r' that(2)] that(4) str_strip_cases [of "r ! k"] show ?thesis
      by (auto simp: nrm_def)
  qed
  show ?thesis
  proof (cases "''id'' \<in> set (map lower (names st))")
    case True
    then have fc: "columns f' = C1" and fr: "rows f' = drop_dups R2"
      by (simp_all add: f' columns_drop_duplicates rows_drop_duplicates st_cols st_rows)
    have inR2: "r \<in> set R2" if "r \<in> set (rows f')" for r
      using that by (simp add: fr set_drop_dups)
    show ?thesis
    proof (rule clean_contacts_fix [OF _ _ _ _ _ _ _ _ _ _ _ rt])
      show "\<not> df_empty f'" by (simp add: df_empty_def fc fr C1_ne R2_ne drop_dups_nil)
      show "lower n = n" if "n \<in> set (names f')" for n
        using that low_C1 by (simp add: names_def fc)
      show "count_list (names f') ''created_at'' = 1" by (simp add: names_def fc cnt)
      show "map (\<lambda>(n, d). if n = ''created_at'' then (n, DatetimeT) else (n, d)) (columns f')
            = columns f'"
        using uA_C1 by (simp add: fc uA_def)
      show "''id'' \<in> set (names f')"
        using True unfolding st_names map_lower_idem by (simp add: names_def fc fst_C1 fst_cols)
      show "distinct (rows f')" by (simp add: fr distinct_drop_dups)
      show "count_list (names f') col = 1"
        if "col \<in> set (object_columns f')" "col \<noteq> ''created_at''" for col
        using objC1 [of col] that by (simp add: object_columns_def names_def fc)
      show "length r \<le> length (columns f')" if "r \<in> set (rows f')" for r
        using len [OF inR2 [OF that]] by (simp add: fc)
      show "map2 (\<lambda>(n, d) c. if d = ObjectT \<and> n \<noteq> ''created_at'' then str_strip c else c)
              (columns f') r = r" if "r \<in> set (rows f')" for r
        using stable [OF inR2 [OF that]] by (simp add: fc hS_def)
      show "cell_at r k = Null \<or> (\<exists>t. cell_at r k = Stamp t)"
        if "r \<in> set (rows f')" "k < length (columns f')" "fst (columns f' ! k) = ''created_at''"
        for r k
        using stamps [OF inR2 [OF that(1)], of k] that(2,3) by (simp add: fc)
      show "cell_at r k = Null \<or> (\<exists>s. cell_at r k = Str s)"
        if "r \<in> set (rows f')" "k < length (columns f')" "columns f' ! k = (col, ObjectT)"
          "col \<noteq> ''created_at''" for r k col
        using texts [OF inR2 [OF that(1)], of k col] that(2,3,4) by (simp add: fc)
    qed
  next
    case False
    let ?num = "map2 (\<lambda>i r. Num (of_nat i) # r) [1..<Suc (length R2)] R2"
    from False have fc: "columns f' = (''id'', NumberT) # C1" and fr: "rows f' = drop_dups ?num"
      by (simp_all add: f' columns_drop_duplicates rows_drop_duplicates st_cols st_rows
          columns_insert_id rows_insert_id)
    from False have noid: "''id'' \<notin> set (map fst C1)"
      unfolding st_names map_lower_idem by (simp add: fst_C1 fst_cols)
    have inR2: "\<exists>i r'. r = Num (of_nat i) # r' \<and> r' \<in> set R2" if "r \<in> set (rows f')" for r
    proof -
      from that have "r \<in> set ?num" by (simp add: fr set_drop_dups)
      then show ?thesis by (auto dest: set_zip_rightD)
    qed
    have idne: "''id'' \<noteq> ''created_at''" by simp
    show ?thesis
    proof (rule clean_contacts_fix [OF _ _ _ _ _ _ _ _ _ _ _ rt])
      show "\<not> df_empty f'" using R2_ne
        by (cases R2) (simp_all add: df_empty_def fc fr drop_dups_nil)
      show "lower n = n" if "n \<in> set (names f')" for n
      proof -
        have "lower ''id'' = ''id''" by code_simp
        with that low_C1 show ?thesis by (auto simp: names_def fc)
      qed
      show "count_list (names f') ''created_at'' = 1" by (simp add: names_def fc cnt)
      show "map (\<lambda>(n, d). if n = ''created_at'' then (n, DatetimeT) else (n, d)) (columns f')
            = columns f'"
        using uA_C1 by (simp add: fc uA_def)
      show "''id'' \<in> set (names f')" by (simp add: names_def fc)
      show "distinct (rows f')" by (simp add: fr distinct_drop_dups)
      show "count_list (names f') col = 1"
        if "col \<in> set (object_columns f')" "col \<noteq> ''created_at''" for col
      proof -
        from that(1) have m: "col \<in> set (map fst (filter (\<lambda>(n, d). d = ObjectT) C1))"
          by (simp add: object_columns_def fc)
        then have "col \<in> set (map fst C1)" by auto
        with noid have "col \<noteq> ''id''" by blast
        with objC1 [OF m that(2)] show ?thesis by (simp add: names_def fc)
      qed
      show "length r \<le> length (columns f')" if "r \<in> set (rows f')" for r
        using inR2 [OF that] len by (auto simp: fc)
      show "map2 (\<lambda>(n, d) c. if d = ObjectT \<and> n \<noteq> ''created_at'' then str_strip c else c)
              (columns f') r = r" if "r \<in> set (rows f')" for r
      proof -
        from inR2 [OF that] obtain i r' where r: "r = Num (of_nat i) # r'" and "r' \<in> set R2"
          by blast
        from stable [OF this(2)] show ?thesis by (simp add: fc r hS_def)
      qed
      show "cell_at r k = Null \<or> (\<exists>t. cell_at r k = Stamp t)"
        if "r \<in> set (rows f')" "k < length (columns f')" "fst (columns f' ! k) = ''created_at''"
        for r k
      proof -
        from inR2 [OF that(1)] obtain i r' where r: "r = Num (of_nat i) # r'" and r': "r' \<in> set R2"
          by blast
        from that(3) idne obtain j where j: "k = Suc j" by (cases k) (auto simp: fc)
        with that(2,3) have "j < length C1" "fst (C1 ! j) = ''created_at''" by (simp_all add: fc)
        from stamps [OF r' this] show ?thesis by (simp add: r j cell_at_Cons)
      qed
      show "cell_at r k = Null \<or> (\<exists>s. cell_at r k = Str s)"
        if "r \<in> set (rows f')" "k < length (columns f')" "columns f' ! k = (col, ObjectT)"
          "col \<noteq> ''created_at''" for r k col
      proof -
        from inR2 [OF that(1)] obtain i r' where r: "r = Num (of_nat i) # r'" and r': "r' \<in> set R2"
          by blast
        from that(3) obtain j where j: "k = Suc j" by (cases k) (auto simp: fc)
        with that(2,3) have "j < length C1" "C1 ! j = (col, ObjectT)" by (simp_all add: fc)
        from texts [OF r' this that(4)] show ?thesis by (simp add: r j cell_at_Cons)
      qed
    qed
  qed
qed

lemma clean_data_idem:
  assumes rt: "\<And>cs. (\<And>c. c \<in> set cs \<Longrightarrow> c = Null \<or> (\<exists>t. c = Stamp t)) \<Longrightarrow>
        to_datetime parse Coerce (map (\<lambda>s. strip (re_sub_parens s)) (astype_str fmt cs)) = Inr cs"
    and c: "clean_data parse fmt d = Inr d'"
  shows "clean_data parse fmt d' = Inr d'"
proof -
  from c obtain co en te ca cb where
    1: "clean_contacts parse fmt (contacts d) = Inr co" and
    2: "clean_table (entities d) = Inr en" and
    3: "clean_table (techstacks d) = Inr te" and
    4: "clean_table (customerA d) = Inr ca" and
    5: "clean_table (customerB d) = Inr cb" and
    d': "d' = \<lparr>contacts = co, entities = en, techstacks = te, customerA = ca, customerB = cb\<rparr>"
    by (auto simp: clean_data_def split: sum.splits)
  show ?thesis
    using clean_contacts_idem [OF rt 1] clean_table_idem [OF 2] clean_table_idem [OF 3]
      clean_table_idem [OF 4] clean_table_idem [OF 5]
    by (simp add: clean_data_def d')
qed

text \<open>
  The three failures, on small tables: timestamps with different UTC offsets, a column
  of dtype \<open>object\<close> that holds numbers only, and no \<open>created_at\<close> column.
\<close>

lemma clean_contacts_errors:
  "clean_contacts sample_parse sample_fmt
     \<lparr>columns = [(''created_at'', ObjectT)],
      rows = [[Str ''2024-01-15 09:30:00+00:00''], [Str ''2024-01-15 09:30:00+01:00'']]\<rparr>
     = Inl ValueError \<and>
   clean_contacts sample_parse sample_fmt
     \<lparr>columns = [(''emails'', ObjectT), (''created_at'', ObjectT)],
      rows = [[Num 1, Str ''not a date'']]\<rparr>
     = Inl AttributeError \<and>
   clean_contacts sample_parse sample_fmt
     \<lparr>columns = [(''emails'', ObjectT)], rows = [[Str ''ana@example.org'']]\<rparr>
     = Inl (KeyError ''created_at'')"
  by code_simp

text \<open>
  Claim C9.  For a Contact table with rows, whatever the timestamp texts are and however
  many of them are unparsable:

  \<^item> normalization fails exactly when the table has no or several \<open>created_at\<close>
    columns (in lower case), when its timestamps mix UTC offsets, or when the \<open>str\<close>
    accessor rejects one of its other \<open>object\<close> columns; unparsable texts play no part
    in that (they carry no offset);
  \<^item> otherwise it returns a table whose rows are the source rows, in order, each with
    its other texts stripped and with the value read from its own timestamp text in
    \<open>created_at\<close> (then numbered, or with later duplicates dropped when the source has
    an \<open>id\<close> column);
  \<^item> the timestamp text of a row is the text of its \<open>created_at\<close> cell with the
    parenthesized groups deleted, stripped: that is done before parsing;
  \<^item> the value read from an unparsable text is the missing value;
  \<^item> this is owed to \<open>errors='coerce'\<close>: reading the same texts with \<open>errors='raise'\<close>
    raises as soon as one of them is unparsable;
  \<^item> a parenthesized group that closes on its line is deleted whole.
\<close>

theorem created_at_coercion:
  assumes "\<not> df_empty f" and "wf_frame f"
  shows "((\<exists>e. clean_contacts parse fmt f = Inl e) \<longleftrightarrow>
            count_list (map lower (names f)) ''created_at'' \<noteq> 1 \<or>
            mixed_offsets (parse_column parse (created_at_texts fmt (lower_columns f))) \<or>
            failing_object_columns (\<lambda>col. col \<noteq> ''created_at'') (lower_columns f) \<noteq> []) \<and>
         mixed_offsets (filter (\<lambda>p. p \<noteq> Unparsable)
                          (parse_column parse (created_at_texts fmt (lower_columns f)))) =
           mixed_offsets (parse_column parse (created_at_texts fmt (lower_columns f))) \<and>
         (count_list (map lower (names f)) ''created_at'' = 1 \<and>
          \<not> mixed_offsets (parse_column parse (created_at_texts fmt (lower_columns f))) \<and>
          failing_object_columns (\<lambda>col. col \<noteq> ''created_at'') (lower_columns f) = [] \<longrightarrow>
          (\<exists>f'. clean_contacts parse fmt f = Inr f' \<and>
             rows f' =
               (let R = map2 (\<lambda>r p. map2 (\<lambda>(n, d) c. if n = ''created_at'' then stamp_of p
                                                    else if d = ObjectT then str_strip c else c)
                                      (columns (lower_columns f)) r)
                          (rows f) (parse_column parse (created_at_texts fmt (lower_columns f)))
                in if ''id'' \<in> set (map lower (names f)) then drop_dups R
                   else map2 (\<lambda>i r. Num (of_nat i) # r) [1..<Suc (length (rows f))] R))) \<and>
         created_at_texts fmt (lower_columns f) =
           map (\<lambda>r. strip (re_sub_parens
                       (case cell_of (lower_columns f) ''created_at'' r of
                          Str s \<Rightarrow> s
                        | c \<Rightarrow> fmt (column_cells (lower_columns f) ''created_at'') c)))
             (rows f) \<and>
         stamp_of Unparsable = Null \<and>
         (\<not> mixed_offsets (parse_column parse (created_at_texts fmt (lower_columns f))) \<longrightarrow>
            to_datetime parse Coerce (created_at_texts fmt (lower_columns f)) =
              Inr (map stamp_of (parse_column parse (created_at_texts fmt (lower_columns f))))) \<and>
         (Unparsable \<in> set (parse_column parse (created_at_texts fmt (lower_columns f))) \<longrightarrow>
            to_datetime parse Raise (created_at_texts fmt (lower_columns f)) = Inl ValueError) \<and>
         (\<forall>a b c. CHR ''('' \<notin> set a \<and> CHR '')'' \<notin> set b \<and> CHR 0x0A \<notin> set b \<longrightarrow>
            re_sub_parens (a @ ''('' @ b @ '')'' @ c) = a @ re_sub_parens c)"
proof (intro conjI allI impI)
  show "(\<exists>e. clean_contacts parse fmt f = Inl e) \<longleftrightarrow>
            count_list (map lower (names f)) ''created_at'' \<noteq> 1 \<or>
            mixed_offsets (parse_column parse (created_at_texts fmt (lower_columns f))) \<or>
            failing_object_columns (\<lambda>col. col \<noteq> ''created_at'') (lower_columns f) \<noteq> []"
    using assms by (rule clean_contacts_raises_iff)
next
  show "mixed_offsets (filter (\<lambda>p. p \<noteq> Unparsable)
                          (parse_column parse (created_at_texts fmt (lower_columns f)))) =
           mixed_offsets (parse_column parse (created_at_texts fmt (lower_columns f)))"
    by (rule mixed_offsets_unparsable)
next
  assume "count_list (map lower (names f)) ''created_at'' = 1 \<and>
          \<not> mixed_offsets (parse_column parse (created_at_texts fmt (lower_columns f))) \<and>
          failing_object_columns (\<lambda>col. col \<noteq> ''created_at'') (lower_columns f) = []"
  then have h: "count_list (map lower (names f)) ''created_at'' = 1"
    "failing_object_columns (\<lambda>col. col \<noteq> ''created_at'') (lower_columns f) = []"
    "\<not> mixed_offsets (parse_column parse (created_at_texts fmt (lower_columns f)))"
    by simp_all
  show "\<exists>f'. clean_contacts parse fmt f = Inr f' \<and>
             rows f' =
               (let R = map2 (\<lambda>r p. map2 (\<lambda>(n, d) c. if n = ''created_at'' then stamp_of p
                                                    else if d = ObjectT then str_strip c else c)
                                      (columns (lower_columns f)) r)
                          (rows f) (parse_column parse (created_at_texts fmt (lower_columns f)))
                in if ''id'' \<in> set (map lower (names f)) then drop_dups R
                   else map2 (\<lambda>i r. Num (of_nat i) # r) [1..<Suc (length (rows f))] R)"
    by (rule created_at_rows [OF assms h])
next
  show "created_at_texts fmt (lower_columns f) =
           map (\<lambda>r. strip (re_sub_parens
                       (case cell_of (lower_columns f) ''created_at'' r of
                          Str s \<Rightarrow> s
                        | c \<Rightarrow> fmt (column_cells (lower_columns f) ''created_at'') c)))
             (rows f)"
    using created_at_texts_rows [of fmt "lower_columns f"] by (simp only: rows_lower_columns)
next
  show "stamp_of Unparsable = Null" by (simp add: stamp_of_def)
next
  assume "\<not> mixed_offsets (parse_column parse (created_at_texts fmt (lower_columns f)))"
  then show "to_datetime parse Coerce (created_at_texts fmt (lower_columns f)) =
           Inr (map stamp_of (parse_column parse (created_at_texts fmt (lower_columns f))))"
    by (simp add: to_datetime_Coerce)
next
  assume "Unparsable \<in> set (parse_column parse (created_at_texts fmt (lower_columns f)))"
  then show "to_datetime parse Raise (created_at_texts fmt (lower_columns f)) = Inl ValueError"
    by (rule to_datetime_Raise)
next
  fix a b c
  assume "CHR ''('' \<notin> set a \<and> CHR '')'' \<notin> set b \<and> CHR 0x0A \<notin> set b"
  then show "re_sub_parens (a @ ''('' @ b @ '')'' @ c) = a @ re_sub_parens c"
    by (elim conjE) (rule re_sub_parens_group)
qed

theorem created_at_coercion_witness:
  "\<not> df_empty sample_contacts \<and> wf_frame sample_contacts \<and>
   count_list (map lower (names sample_contacts)) ''created_at'' = 1 \<and>
   failing_object_columns (\<lambda>col. col \<noteq> ''created_at'') (lower_columns sample_contacts) = [] \<and>
   \<not> mixed_offsets (parse_column sample_parse
        (created_at_texts sample_fmt (lower_columns sample_contacts))) \<and>
   created_at_texts sample_fmt (lower_columns sample_contacts) =
     [''2024-01-15 09:30:00'', ''not a date'', ''NaT''] \<and>
   parse_column sample_parse [''2024-01-15 09:30:00'', ''not a date'', ''NaT''] =
     [Timestamp 1705311000000000000 None, Unparsable, NotATime] \<and>
   clean_contacts sample_parse sample_fmt sample_contacts = Inr sample_cleaned_contacts \<and>
   (\<nexists>e. clean_contacts sample_parse sample_fmt sample_contacts = Inl e) \<and>
   rows sample_cleaned_contacts =
     [[Num 1, Num 1, Str ''ana@example.org'', Str ''Senior Engineer'', Stamp 1705311000000000000],
      [Num 2, Num 2, Str ''bo@example.org'', Str ''Plumber'', Null],
      [Num 3, Num 9, Str ''cy@example.org'', Null, Null]] \<and>
   to_datetime sample_parse Coerce [''2024-01-15 09:30:00'', ''not a date'', ''NaT''] =
     Inr [Stamp 1705311000000000000, Null, Null] \<and>
   to_datetime sample_parse Raise [''2024-01-15 09:30:00'', ''not a date'', ''NaT''] =
     Inl ValueError \<and>
   re_sub_parens ''2024-01-15 09:30:00 (EST)'' = ''2024-01-15 09:30:00 ''"
proof -
  let ?texts = "created_at_texts sample_fmt (lower_columns sample_contacts)"
  have 1: "\<not> df_empty sample_contacts" by code_simp
  have 2: "wf_frame sample_contacts" by code_simp
  have 3: "count_list (map lower (names sample_contacts)) ''created_at'' = 1" by code_simp
  have 4: "failing_object_columns (\<lambda>col. col \<noteq> ''created_at'') (lower_columns sample_contacts) = []"
    by code_simp
  have 5: "\<not> mixed_offsets (parse_column sample_parse ?texts)" by code_simp
  have t: "?texts = [''2024-01-15 09:30:00'', ''not a date'', ''NaT'']" by code_simp
  have p: "parse_column sample_parse [''2024-01-15 09:30:00'', ''not a date'', ''NaT''] =
     [Timestamp 1705311000000000000 None, Unparsable, NotATime]" by code_simp
  have c: "clean_contacts sample_parse sample_fmt sample_contacts = Inr sample_cleaned_contacts"
    by code_simp
  have g: "re_sub_parens ''2024-01-15 09:30:00 (EST)'' = ''2024-01-15 09:30:00 ''" by code_simp
  have s: "map stamp_of [Timestamp 1705311000000000000 None, Unparsable, NotATime] =
     [Stamp 1705311000000000000, Null, Null]" by code_simp
  have e: "(let R = map2 (\<lambda>r p. map2 (\<lambda>(n, d) c. if n = ''created_at'' then stamp_of p
                                                   else if d = ObjectT then str_strip c else c)
                                     (columns (lower_columns sample_contacts)) r)
                         (rows sample_contacts)
                         [Timestamp 1705311000000000000 None, Unparsable, NotATime]
               in if ''id'' \<in> set (map lower (names sample_contacts)) then drop_dups R
                  else map2 (\<lambda>i r. Num (of_nat i) # r) [1..<Suc (length (rows sample_contacts))] R) =
     [[Num 1, Num 1, Str ''ana@example.org'', Str ''Senior Engineer'', Stamp 1705311000000000000],
      [Num 2, Num 2, Str ''bo@example.org'', Str ''Plumber'', Null],
      [Num 3, Num 9, Str ''cy@example.org'', Null, Null]]" by code_simp
  have m: "Unparsable \<in> set [Timestamp 1705311000000000000 None, Unparsable, NotATime]" by simp
  note inst = created_at_coercion [OF 1 2, of sample_parse sample_fmt]
  note i1 = inst [THEN conjunct1]
  note i3 = inst [THEN conjunct2, THEN conjunct2, THEN conjunct1, unfolded t p e]
  note i6 = inst [THEN conjunct2, THEN conjunct2, THEN conjunct2, THEN conjunct2,
      THEN conjunct2, THEN conjunct1, unfolded t p s]
  note i7 = inst [THEN conjunct2, THEN conjunct2, THEN conjunct2, THEN conjunct2,
      THEN conjunct2, THEN conjunct2, THEN conjunct1, unfolded t p]
  from i1 3 4 5 have n: "\<nexists>e. clean_contacts sample_parse sample_fmt sample_contacts = Inl e"
    by blast
  have nm: "\<not> mixed_offsets [Timestamp 1705311000000000000 None, Unparsable, NotATime]"
    by code_simp
  from i3 3 4 nm c have r: "rows sample_cleaned_contacts =
     [[Num 1, Num 1, Str ''ana@example.org'', Str ''Senior Engineer'', Stamp 1705311000000000000],
      [Num 2, Num 2, Str ''bo@example.org'', Str ''Plumber'', Null],
      [Num 3, Num 9, Str ''cy@example.org'', Null, Null]]" by auto
  from i6 nm have co: "to_datetime sample_parse Coerce [''2024-01-15 09:30:00'', ''not a date'', ''NaT''] =
     Inr [Stamp 1705311000000000000, Null, Null]" by blast
  from i7 m have ra: "to_datetime sample_parse Raise [''2024-01-15 09:30:00'', ''not a date'', ''NaT''] =
     Inl ValueError" by blast
  show ?thesis by (intro conjI 1 2 3 4 5 t p c n r co ra g)
qed

lemma sample_clean: "clean_data sample_parse sample_fmt sample_data = Inr sample_cleaned"
  by code_simp

section \<open>Properties of the merge\<close>

lemma filter_key_distinct:
  "distinct (map key rs) \<Longrightarrow>
   filter (\<lambda>r. key r = x) rs = (case find (\<lambda>r. key r = x) rs of None \<Rightarrow> [] | Some e \<Rightarrow> [e])"
proof (induction rs)
  case Nil
  show ?case by simp
next
  case (Cons r rs)
  show ?case
  proof (cases "key r = x")
    case True
    from Cons.prems have "key r \<notin> key ` set rs" by simp
    with True have "\<forall>e \<in> set rs. key e \<noteq> x" by blast
    then have "filter (\<lambda>r. key r = x) rs = []" by (simp add: filter_empty_conv)
    with True show ?thesis by simp
  next
    case False
    with Cons show ?thesis by simp
  qed
qed

lemma merge_row_distinct:
  assumes "distinct (map (cell_of R col) (rows R))"
  shows "merge_row L R col l =
     [l @ (case find (\<lambda>e. cell_of R col e = cell_of L col l) (rows R) of
             None \<Rightarrow> replicate (length (columns R) - 1) Null
           | Some e \<Rightarrow> drop_cell (index_of col (names R)) e)]"
  unfolding merge_row_def filter_key_distinct [OF assms]
  by (simp split: option.splits)

lemma merge_left_Inr_iff:
  "merge_left col sfx L R = Inr m \<longleftrightarrow>
     merge_key L col = None \<and> merge_key R col = None \<and> dtype_of L col = dtype_of R col \<and>
     m = \<lparr>columns = merge_columns col sfx (columns L) (columns R),
          rows = concat (map (merge_row L R col) (rows L))\<rparr>"
  by (auto simp: merge_left_def split: option.splits)

lemma concat_map_single: "concat (map (\<lambda>x. [f x]) xs) = map f xs"
  by (induction xs) simp_all

lemma merge_left_rows:
  assumes "merge_left col sfx L R = Inr m"
    and "distinct (map (cell_of R col) (rows R))"
  shows "rows m = map (\<lambda>l. l @ (case find (\<lambda>e. cell_of R col e = cell_of L col l) (rows R) of
             None \<Rightarrow> replicate (length (columns R) - 1) Null
           | Some e \<Rightarrow> drop_cell (index_of col (names R)) e)) (rows L)"
proof -
  from assms(1) have "rows m = concat (map (merge_row L R col) (rows L))"
    by (simp add: merge_left_Inr_iff)
  also have "merge_row L R col = (\<lambda>l. [l @ (case find (\<lambda>e. cell_of R col e = cell_of L col l) (rows R) of
             None \<Rightarrow> replicate (length (columns R) - 1) Null
           | Some e \<Rightarrow> drop_cell (index_of col (names R)) e)])"
    by (rule ext) (rule merge_row_distinct [OF assms(2)])
  finally show ?thesis by (simp only: concat_map_single)
qed

lemma merge_left_length:
  assumes "merge_left col sfx L R = Inr m"
    and "distinct (map (cell_of R col) (rows R))"
  shows "length (rows m) = length (rows L)"
  by (simp add: merge_left_rows [OF assms])

lemma merge_mapping_length:
  assumes "merge_mapping merged customer = Inr m"
    and "distinct (map (cell_of customer ''place_id'') (rows customer))"
  shows "length (rows m) = length (rows merged)"
proof (cases "df_empty customer")
  case True
  with assms(1) show ?thesis by (simp add: merge_mapping_def)
next
  case False
  with assms(1) have "merge_left ''place_id'' (''_x'', ''_y'') merged customer = Inr m"
    by (simp add: merge_mapping_def)
  from merge_left_length [OF this assms(2)] show ?thesis .
qed

lemma find_eq_distinct: "find (\<lambda>k. k = p) ks = (if p \<in> set ks then Some p else None)"
  by (induction ks) auto

lemma find_map_comp: "find P (map f xs) = map_option f (find (\<lambda>x. P (f x)) xs)"
  by (induction xs) auto

lemma groupby_names_Inr:
  assumes "groupby_names t = Inr g"
  shows "names g = [''place_id'', ''tech_names'']"
    and "length (columns g) = 2"
    and "rows g = map (\<lambda>k. [k, Lst (tags_of t k)])
           (drop_dups (filter (\<lambda>k. k \<noteq> Null) (map (cell_of t ''place_id'') (rows t))))"
  using assms by (auto simp: groupby_names_def names_def split: if_splits)

lemma tags_of_nonempty:
  "tags_of t p \<noteq> [] \<longleftrightarrow> p \<in> cell_of t ''place_id'' ` set (rows t)"
  by (auto simp: tags_of_def filter_empty_conv)

lemma merge_tags_rows:
  assumes m: "merge_tags merged tags = Inr m" and ne: "\<not> df_empty tags"
  shows "rows m = map (\<lambda>l. l @ [if cell_of merged ''place_id'' l = Null \<or>
                                 tags_of tags (cell_of merged ''place_id'' l) = []
                              then Null
                              else Lst (tags_of tags (cell_of merged ''place_id'' l))])
                    (rows merged)"
proof -
  from m ne obtain g where g: "groupby_names tags = Inr g"
    and ml: "merge_left ''place_id'' (''_x'', ''_y'') merged g = Inr m"
    by (auto simp: merge_tags_def split: sum.splits)
  define keys where
    "keys = drop_dups (filter (\<lambda>k. k \<noteq> Null) (map (cell_of tags ''place_id'') (rows tags)))"
  note gn = groupby_names_Inr(1) [OF g]
  have gr: "rows g = map (\<lambda>k. [k, Lst (tags_of tags k)]) keys"
    using groupby_names_Inr(3) [OF g] by (simp add: keys_def)
  have ix: "index_of ''place_id'' (names g) = 0" by (simp add: gn index_of_def)
  have key: "cell_of g ''place_id'' [k, x] = k" for k x
    by (simp add: cell_of_def ix cell_at_def)
  have dk: "distinct keys" by (simp add: keys_def distinct_drop_dups)
  have "map (cell_of g ''place_id'') (rows g) = keys"
    by (simp add: gr key comp_def)
  with dk have dg: "distinct (map (cell_of g ''place_id'') (rows g))" by simp
  have len: "replicate (length (columns g) - 1) Null = [Null]"
    using groupby_names_Inr(2) [OF g] by simp
  have mem: "p \<in> set keys \<longleftrightarrow> \<not> (p = Null \<or> tags_of tags p = [])" for p
  proof -
    have "p \<in> set keys \<longleftrightarrow> p \<noteq> Null \<and> p \<in> cell_of tags ''place_id'' ` set (rows tags)"
      unfolding keys_def set_drop_dups by auto
    then show ?thesis unfolding tags_of_nonempty [symmetric] by blast
  qed
  have ext: "(case find (\<lambda>e. cell_of g ''place_id'' e = p) (rows g) of
               None \<Rightarrow> replicate (length (columns g) - 1) Null
             | Some e \<Rightarrow> drop_cell (index_of ''place_id'' (names g)) e)
           = [if p = Null \<or> tags_of tags p = [] then Null else Lst (tags_of tags p)]" for p
  proof (cases "p \<in> set keys")
    case True
    then have "find (\<lambda>e. cell_of g ''place_id'' e = p) (rows g) = Some [p, Lst (tags_of tags p)]"
      unfolding gr find_map_comp key find_eq_distinct by simp
    with True mem [of p] show ?thesis by (simp add: ix drop_cell_def)
  next
    case False
    then have "find (\<lambda>e. cell_of g ''place_id'' e = p) (rows g) = None"
      unfolding gr find_map_comp key find_eq_distinct by simp
    with False mem [of p] show ?thesis by (simp only: option.case len) simp
  qed
  show ?thesis
    unfolding merge_left_rows [OF ml dg] ext ..
qed

lemma rows_set_tech_names_none: "length (rows (set_tech_names_none f)) = length (rows f)"
  by (simp add: set_tech_names_none_def rows_map_cells)

lemma merge_tags_length:
  assumes "merge_tags merged tags = Inr m"
  shows "length (rows m) = length (rows merged)"
proof (cases "df_empty tags")
  case True
  with assms show ?thesis by (auto simp: merge_tags_def rows_set_tech_names_none)
next
  case False
  from merge_tags_rows [OF assms False] show ?thesis by simp
qed

lemma flatten_data_length:
  assumes f: "flatten_data d = Inr m"
    and ne: "\<not> df_empty (contacts d)" "\<not> df_empty (entities d)"
    and de: "distinct (map (cell_of (entities d) ''place_id'') (rows (entities d)))"
    and da: "distinct (map (cell_of (customerA d) ''place_id'') (rows (customerA d)))"
    and db: "distinct (map (cell_of (customerB d) ''place_id'') (rows (customerB d)))"
  shows "length (rows m) = length (rows (contacts d))"
proof -
  from f ne obtain m1 m2 m3 where
    1: "merge_left ''place_id'' (''_contact'', ''_entity'') (contacts d) (entities d) = Inr m1" and
    2: "merge_tags m1 (techstacks d) = Inr m2" and
    3: "merge_mapping m2 (customerA d) = Inr m3" and
    4: "merge_mapping m3 (customerB d) = Inr m"
    by (auto simp: flatten_data_def split: sum.splits)
  show ?thesis
    using merge_left_length [OF 1 de] merge_tags_length [OF 2]
      merge_mapping_length [OF 3 da] merge_mapping_length [OF 4 db]
    by simp
qed

text \<open>
  \<open>flatten_data\<close> gives up when there are no contacts or no entities: it returns an empty
  frame.  Its merges are plain left merges: two entity rows with the same \<open>place_id\<close>
  multiply the contact rows of that place.
\<close>

lemma flatten_data_empty:
  "df_empty (contacts d) \<or> df_empty (entities d) \<Longrightarrow> flatten_data d = Inr empty_frame"
  by (auto simp: flatten_data_def)

lemma flatten_fanout_example:
  "flatten_data (sample_cleaned\<lparr>entities :=
       \<lparr>columns = [(''place_id'', NumberT), (''display_name'', ObjectT),
                   (''pop_estimate_2022'', NumberT)],
        rows = [[Num 1, Str ''Springfield'', Num 1200],
                [Num 1, Str ''Springfield Township'', Num 300]]\<rparr>\<rparr>)
   = Inr \<lparr>columns = [(''id'', NumberT), (''place_id'', NumberT), (''emails'', ObjectT),
                 (''title'', ObjectT), (''created_at'', DatetimeT),
                 (''display_name'', ObjectT), (''pop_estimate_2022'', NumberT),
                 (''tech_names'', ObjectT), (''sfdc_id'', ObjectT)],
      rows = [[Num 1, Num 1, Str ''ana@example.org'', Str ''Senior Engineer'',
               Stamp 1705311000000000000, Str ''Springfield'', Num 1200,
               Lst [Str ''React'', Str ''Node'', Str ''Vue''], Str ''00A1B2C3D4E5''],
              [Num 1, Num 1, Str ''ana@example.org'', Str ''Senior Engineer'',
               Stamp 1705311000000000000, Str ''Springfield Township'', Num 300,
               Lst [Str ''React'', Str ''Node'', Str ''Vue''], Str ''00A1B2C3D4E5''],
              [Num 2, Num 2, Str ''bo@example.org'', Str ''Plumber'', Null,
               Null, Null, Lst [Str ''Django''], Null],
              [Num 3, Num 9, Str ''cy@example.org'', Null, Null, Null, Null, Null, Null]]\<rparr>"
  by code_simp

text \<open>
  When contacts and entities are not empty and \<open>place_id\<close> is distinct among the entity
  rows and among the rows of each mapping table, the frame that \<open>flatten_data\<close> returns
  has exactly as many rows as the Contact table; and the left join of contacts and
  entities keeps every contact row, in order, followed by the cells of its entity, or by
  missing values when no entity has its \<open>place_id\<close>.
\<close>

lemma flatten_one_row_per_contact:
  assumes "flatten_data d = Inr m"
    and "\<not> df_empty (contacts d)" and "\<not> df_empty (entities d)"
    and "distinct (map (cell_of (entities d) ''place_id'') (rows (entities d)))"
    and "distinct (map (cell_of (customerA d) ''place_id'') (rows (customerA d)))"
    and "distinct (map (cell_of (customerB d) ''place_id'') (rows (customerB d)))"
  shows "length (rows m) = length (rows (contacts d)) \<and>
         (\<exists>merged.
            merge_left ''place_id'' (''_contact'', ''_entity'') (contacts d) (entities d)
              = Inr merged \<and>
            rows merged =
              map (\<lambda>l. l @ (case find (\<lambda>e. cell_of (entities d) ''place_id'' e =
                                            cell_of (contacts d) ''place_id'' l)
                                     (rows (entities d)) of
                               None \<Rightarrow> replicate (length (columns (entities d)) - 1) Null
                             | Some e \<Rightarrow> drop_cell (index_of ''place_id'' (names (entities d))) e))
                (rows (contacts d)))"
proof
  show "length (rows m) = length (rows (contacts d))"
    using assms by (rule flatten_data_length)
next
  from assms(1-3) obtain m1 where
    1: "merge_left ''place_id'' (''_contact'', ''_entity'') (contacts d) (entities d) = Inr m1"
    by (auto simp: flatten_data_def split: sum.splits)
  from merge_left_rows [OF 1 assms(4)] 1
  show "\<exists>merged.
            merge_left ''place_id'' (''_contact'', ''_entity'') (contacts d) (entities d)
              = Inr merged \<and>
            rows merged =
              map (\<lambda>l. l @ (case find (\<lambda>e. cell_of (entities d) ''place_id'' e =
                                            cell_of (contacts d) ''place_id'' l)
                                     (rows (entities d)) of
                               None \<Rightarrow> replicate (length (columns (entities d)) - 1) Null
                             | Some e \<Rightarrow> drop_cell (index_of ''place_id'' (names (entities d))) e))
                (rows (contacts d))"
    by blast
qed

lemma flatten_sample:
  "flatten_data sample_cleaned = Inr sample_flattened \<and>
   merge_left ''place_id'' (''_contact'', ''_entity'') (contacts sample_cleaned)
     (entities sample_cleaned) = Inr sample_merged \<and>
   rows sample_merged ! 2 = [Num 3, Num 9, Str ''cy@example.org'', Null, Null, Null, Null]"
  by code_simp

lemma merge_dtype_mismatch:
  "merge_left ''place_id'' (''_x'', ''_y'')
     \<lparr>columns = [(''place_id'', NumberT)], rows = [[Num 1]]\<rparr>
     \<lparr>columns = [(''place_id'', ObjectT), (''sfdc_id'', ObjectT)],
      rows = [[Str ''1'', Str ''00A1B2C3D4E5'']]\<rparr> = Inl ValueError"
  by code_simp

text \<open>
  Claim C2.  The tag merge of \<open>flatten_data\<close> aggregates the tags by place before it
  joins them: whatever the tag table is, the merged frame keeps its number of rows, each
  row gets exactly one \<open>tech_names\<close> cell, and for a place with k tag rows that cell is
  the list \<open>tags_of\<close> of all k names (a missing value when k is 0).
\<close>

theorem tags_aggregated_before_join:
  assumes "merge_tags merged tags = Inr m"
  shows "length (rows m) = length (rows merged) \<and>
         (\<not> df_empty tags \<longrightarrow>
            rows m = map (\<lambda>l. l @ [if cell_of merged ''place_id'' l = Null \<or>
                                       tags_of tags (cell_of merged ''place_id'' l) = []
                                    then Null
                                    else Lst (tags_of tags (cell_of merged ''place_id'' l))])
                       (rows merged)) \<and>
         (\<forall>p. length (tags_of tags p) =
                length (filter (\<lambda>r. cell_of tags ''place_id'' r = p) (rows tags)) \<and>
              (\<forall>r \<in> set (rows tags). cell_of tags ''place_id'' r = p \<longrightarrow>
                 cell_of tags ''name'' r \<in> set (tags_of tags p)))"
proof (intro conjI allI impI)
  show "length (rows m) = length (rows merged)" using assms by (rule merge_tags_length)
next
  assume "\<not> df_empty tags"
  with assms show "rows m = map (\<lambda>l. l @ [if cell_of merged ''place_id'' l = Null \<or>
                                       tags_of tags (cell_of merged ''place_id'' l) = []
                                    then Null
                                    else Lst (tags_of tags (cell_of merged ''place_id'' l))])
                       (rows merged)"
    by (rule merge_tags_rows)
next
  fix p
  show "length (tags_of tags p) =
        length (filter (\<lambda>r. cell_of tags ''place_id'' r = p) (rows tags))"
    by (simp add: tags_of_def)
next
  fix p
  show "\<forall>r \<in> set (rows tags). cell_of tags ''place_id'' r = p \<longrightarrow>
          cell_of tags ''name'' r \<in> set (tags_of tags p)"
    by (auto simp: tags_of_def)
qed

theorem tags_aggregated_before_join_witness:
  "merge_tags sample_merged sample_techstacks =
     Inr \<lparr>columns = columns sample_merged @ [(''tech_names'', ObjectT)],
          rows = [rows sample_merged ! 0 @ [Lst [Str ''React'', Str ''Node'', Str ''Vue'']],
                  rows sample_merged ! 1 @ [Lst [Str ''Django'']],
                  rows sample_merged ! 2 @ [Null]]\<rparr> \<and>
   \<not> df_empty sample_techstacks \<and>
   length (rows \<lparr>columns = columns sample_merged @ [(''tech_names'', ObjectT)],
          rows = [rows sample_merged ! 0 @ [Lst [Str ''React'', Str ''Node'', Str ''Vue'']],
                  rows sample_merged ! 1 @ [Lst [Str ''Django'']],
                  rows sample_merged ! 2 @ [Null]]\<rparr>) = length (rows sample_merged) \<and>
   tags_of sample_techstacks (Num 1) = [Str ''React'', Str ''Node'', Str ''Vue''] \<and>
   tags_of sample_techstacks (Num 2) = [Str ''Django''] \<and>
   tags_of sample_techstacks (Num 9) = []"
proof -
  let ?m = "\<lparr>columns = columns sample_merged @ [(''tech_names'', ObjectT)],
          rows = [rows sample_merged ! 0 @ [Lst [Str ''React'', Str ''Node'', Str ''Vue'']],
                  rows sample_merged ! 1 @ [Lst [Str ''Django'']],
                  rows sample_merged ! 2 @ [Null]]\<rparr>"
  have 1: "merge_tags sample_merged sample_techstacks = Inr ?m" by code_simp
  have 2: "\<not> df_empty sample_techstacks" by code_simp
  have 3: "tags_of sample_techstacks (Num 1) = [Str ''React'', Str ''Node'', Str ''Vue'']"
    by code_simp
  have 4: "tags_of sample_techstacks (Num 2) = [Str ''Django'']" by code_simp
  have 5: "tags_of sample_techstacks (Num 9) = []" by code_simp
  from tags_aggregated_before_join [OF 1]
  have 6: "length (rows ?m) = length (rows sample_merged)" by (rule conjunct1)
  show ?thesis by (intro conjI 1 2 3 4 5 6)
qed

section \<open>Properties of the materialized view\<close>

text \<open>
  The view joins the tags before it aggregates them, and \<open>GROUP BY\<close> folds the joined
  rows again: the number of rows of the view does not depend on the tag table, and the
  names aggregated for a contact's row include the name of every tag of the entity's
  place.
\<close>

lemma matches_or_none_nonempty: "matches_or_none on x ys \<noteq> []"
  by (simp add: matches_or_none_def split: list.splits)

lemma set_left_join:
  "set (left_join on xs ys) = {(x, yo). x \<in> set xs \<and> yo \<in> set (matches_or_none on x ys)}"
  by (auto simp: left_join_def)

lemma group_key_techstacks: "group_key (d\<lparr>techstacks := T\<rparr>) = group_key d"
  by (simp add: group_key_def)

lemma view_keys:
  "group_key d ` set (view_join d) =
   {[cell_of (contacts d) ''id'' c, cell_of (contacts d) ''emails'' c,
     cell_of (contacts d) ''title'' c, cell_of (entities d) ''display_name'' e,
     cell_of (entities d) ''pop_estimate_2022'' e, cell_of (entities d) ''lat'' e,
     cell_of (entities d) ''long'' e, opt_cell (customerA d) ''sfdc_id'' ca,
     opt_cell (customerB d) ''hubspot_id'' cb] | c e ca cb.
     (c, e) \<in> set (inner_join (\<lambda>c e.
               sql_eq (cell_of (contacts d) ''place_id'' c) (cell_of (entities d) ''place_id'' e))
             (rows (contacts d)) (rows (entities d))) \<and>
     ca \<in> set (matches_or_none (\<lambda>e ca.
           sql_eq (cell_of (entities d) ''place_id'' e) (cell_of (customerA d) ''place_id'' ca))
           e (rows (customerA d))) \<and>
     cb \<in> set (matches_or_none (\<lambda>e cb.
           sql_eq (cell_of (entities d) ''place_id'' e) (cell_of (customerB d) ''place_id'' cb))
           e (rows (customerB d)))}"
  (is "?L = ?R")
proof (intro set_eqI iffI)
  fix k assume "k \<in> ?L"
  then obtain c e t ca cb where r: "((((c, e), t), ca), cb) \<in> set (view_join d)"
    and k: "k = group_key d ((((c, e), t), ca), cb)" by auto
  from r show "k \<in> ?R"
    unfolding k view_join_def set_left_join
    by (auto simp: group_key_def matches_or_none_def)
next
  fix k assume "k \<in> ?R"
  then obtain c e ca cb where ce: "(c, e) \<in> set (inner_join (\<lambda>c e.
               sql_eq (cell_of (contacts d) ''place_id'' c) (cell_of (entities d) ''place_id'' e))
             (rows (contacts d)) (rows (entities d)))"
    and ca: "ca \<in> set (matches_or_none (\<lambda>e ca.
           sql_eq (cell_of (entities d) ''place_id'' e) (cell_of (customerA d) ''place_id'' ca))
           e (rows (customerA d)))"
    and cb: "cb \<in> set (matches_or_none (\<lambda>e cb.
           sql_eq (cell_of (entities d) ''place_id'' e) (cell_of (customerB d) ''place_id'' cb))
           e (rows (customerB d)))"
    and k: "k = [cell_of (contacts d) ''id'' c, cell_of (contacts d) ''emails'' c,
     cell_of (contacts d) ''title'' c, cell_of (entities d) ''display_name'' e,
     cell_of (entities d) ''pop_estimate_2022'' e, cell_of (entities d) ''lat'' e,
     cell_of (entities d) ''long'' e, opt_cell (customerA d) ''sfdc_id'' ca,
     opt_cell (customerB d) ''hubspot_id'' cb]" by blast
  obtain t where t: "t \<in> set (matches_or_none (\<lambda>(c, e) t.
             sql_eq (cell_of (entities d) ''place_id'' e) (cell_of (techstacks d) ''place_id'' t))
             (c, e) (rows (techstacks d)))"
    using matches_or_none_nonempty by (metis last_in_set)
  have "((((c, e), t), ca), cb) \<in> set (view_join d)"
    unfolding view_join_def set_left_join using ce t ca cb
    by (simp add: matches_or_none_def)
  moreover have "k = group_key d ((((c, e), t), ca), cb)" by (simp add: k group_key_def)
  ultimately show "k \<in> ?L" by blast
qed

lemma length_drop_dups: "length (drop_dups xs) = card (set xs)"
  by (simp add: drop_dups_def length_remdups_card_conv)

lemma view_length:
  assumes "create_materialized_view d = Some v"
  shows "length v = card (group_key d ` set (view_join d))"
  using assms by (auto simp: create_materialized_view_def length_drop_dups split: if_splits)

lemma view_rows_independent_of_tags:
  assumes "create_materialized_view (d\<lparr>techstacks := T\<rparr>) = Some v"
    and "create_materialized_view (d\<lparr>techstacks := T'\<rparr>) = Some v'"
  shows "length v = length v'"
proof -
  have "group_key (d\<lparr>techstacks := T\<rparr>) ` set (view_join (d\<lparr>techstacks := T\<rparr>)) =
        group_key (d\<lparr>techstacks := T'\<rparr>) ` set (view_join (d\<lparr>techstacks := T'\<rparr>))"
    unfolding view_keys by simp
  then show ?thesis using view_length [OF assms(1)] view_length [OF assms(2)] by simp
qed

lemma Some_in_matches:
  assumes "y \<in> set ys" and "on x y"
  shows "Some y \<in> set (matches_or_none on x ys)"
proof -
  from assms have m: "y \<in> set (filter (on x) ys)" by simp
  show ?thesis
  proof (cases "filter (on x) ys")
    case Nil
    with m show ?thesis by simp
  next
    case (Cons a list)
    then have "matches_or_none on x ys = map Some (filter (on x) ys)"
      by (simp add: matches_or_none_def)
    with m show ?thesis by (simp only: set_map) blast
  qed
qed

lemma view_tech_names_complete:
  assumes ce: "(c, e) \<in> set (inner_join (\<lambda>c e.
               sql_eq (cell_of (contacts d) ''place_id'' c) (cell_of (entities d) ''place_id'' e))
             (rows (contacts d)) (rows (entities d)))"
    and t: "t \<in> set (rows (techstacks d))"
      "sql_eq (cell_of (entities d) ''place_id'' e) (cell_of (techstacks d) ''place_id'' t)"
    and n: "cell_of (techstacks d) ''name'' t = Str n"
  shows "\<exists>k \<in> group_key d ` set (view_join d).
           k ! 0 = cell_of (contacts d) ''id'' c \<and> lower n \<in> set (group_names d k)"
proof -
  let ?onT = "\<lambda>(c, e) t.
      sql_eq (cell_of (entities d) ''place_id'' e) (cell_of (techstacks d) ''place_id'' t)"
  let ?onA = "\<lambda>((c, e), t) ca.
      sql_eq (cell_of (entities d) ''place_id'' e) (cell_of (customerA d) ''place_id'' ca)"
  let ?onB = "\<lambda>(((c, e), t), ca) cb.
      sql_eq (cell_of (entities d) ''place_id'' e) (cell_of (customerB d) ''place_id'' cb)"
  from t have tm: "Some t \<in> set (matches_or_none ?onT (c, e) (rows (techstacks d)))"
    by (intro Some_in_matches) simp_all
  obtain ca where ca: "ca \<in> set (matches_or_none ?onA ((c, e), Some t) (rows (customerA d)))"
    using matches_or_none_nonempty by (metis last_in_set)
  obtain cb where cb: "cb \<in> set (matches_or_none ?onB (((c, e), Some t), ca) (rows (customerB d)))"
    using matches_or_none_nonempty by (metis last_in_set)
  let ?r = "((((c, e), Some t), ca), cb)"
  have r: "?r \<in> set (view_join d)"
    unfolding view_join_def set_left_join using ce tm ca cb by simp
  let ?f = "\<lambda>((((c, e), t), ca), cb).
      case sql_lower (opt_cell (techstacks d) ''name'' t) of Str n \<Rightarrow> [n] | _ \<Rightarrow> []"
  have "lower n \<in> set (?f ?r)" by (simp add: opt_cell_def sql_lower_def n)
  moreover have "?r \<in> set (filter (\<lambda>r. group_key d r = group_key d ?r) (view_join d))"
    using r by simp
  ultimately have "lower n \<in> set (concat (map ?f
      (filter (\<lambda>r. group_key d r = group_key d ?r) (view_join d))))"
    unfolding set_concat set_map by blast
  then have "lower n \<in> set (group_names d (group_key d ?r))"
    by (simp only: group_names_def)
  moreover have "group_key d ?r ! 0 = cell_of (contacts d) ''id'' c"
    by (simp add: group_key_def)
  ultimately show ?thesis using r by blast
qed

lemma view_row_hd: "view_row d k ! 0 = k ! 0"
  by (simp add: view_row_def Let_def)

lemma set_inner_join:
  "set (inner_join on xs ys) = {(x, y). x \<in> set xs \<and> y \<in> set ys \<and> on x y}"
  by (auto simp: inner_join_def)

text \<open>
  Every row of the view belongs to a contact that has an entity of its \<open>place_id\<close>: a
  contact whose \<open>place_id\<close> no entity has, or whose \<open>place_id\<close> is missing, has no row.
\<close>

lemma view_rows_have_entity:
  assumes "create_materialized_view d = Some v" and "r \<in> set v"
  shows "\<exists>c \<in> set (rows (contacts d)). \<exists>e \<in> set (rows (entities d)).
           sql_eq (cell_of (contacts d) ''place_id'' c) (cell_of (entities d) ''place_id'' e) \<and>
           r ! 0 = cell_of (contacts d) ''id'' c"
proof -
  from assms have "r \<in> view_row d ` set (drop_dups (map (group_key d) (view_join d)))"
    by (auto simp: create_materialized_view_def split: if_splits)
  then obtain k where "k \<in> set (map (group_key d) (view_join d))" and r: "r = view_row d k"
    unfolding set_drop_dups by blast
  then have k: "k \<in> group_key d ` set (view_join d)" by simp
  from k [unfolded view_keys] obtain c e where
    ce: "(c, e) \<in> set (inner_join (\<lambda>c e.
               sql_eq (cell_of (contacts d) ''place_id'' c) (cell_of (entities d) ''place_id'' e))
             (rows (contacts d)) (rows (entities d)))"
    and k0: "k ! 0 = cell_of (contacts d) ''id'' c"
    by auto
  from ce have "c \<in> set (rows (contacts d))" "e \<in> set (rows (entities d))"
    "sql_eq (cell_of (contacts d) ''place_id'' c) (cell_of (entities d) ''place_id'' e)"
    by (simp_all add: set_inner_join)
  with k0 show ?thesis unfolding r view_row_hd by blast
qed

text \<open>
  Claim C1 fails on the code that builds the materialized view.  The cleaned tables
  \<open>sample_tables\<close> have three contacts, at the places 1, 2 and 9, and entities at the
  places 1 and 2 only.  The statement of \<open>create_materialized_view\<close> joins contacts and
  entities with \<open>JOIN\<close>, an inner join: the view has two rows, and none for the contact
  3 at place 9.  \<open>flatten_data\<close>, which builds the same record set with pandas, joins
  them with \<open>how='left'\<close>: on the same tables it returns three rows, the third one the
  contact 3 with missing values in all entity fields, as the claim says.
\<close>

theorem view_drops_contact_without_entity:
  "map (cell_of (contacts sample_tables) ''id'') (rows (contacts sample_tables)) =
     [Num 1, Num 2, Num 3] \<and>
   map (cell_of (contacts sample_tables) ''place_id'') (rows (contacts sample_tables)) =
     [Num 1, Num 2, Num 9] \<and>
   map (cell_of (entities sample_tables) ''place_id'') (rows (entities sample_tables)) =
     [Num 1, Num 2] \<and>
   create_materialized_view sample_tables =
     Some [[Num 1, Str ''ana@example.org'', Str ''senior engineer'', Str ''springfield'',
            Num 1200, Num 39.8, Num (- 89.6), Str ''react node vue'', Str ''00A1B2C3D4E5'',
            Null, Str ''ana@example.org senior engineer react node vue''],
           [Num 2, Str ''bo@example.org'', Str ''plumber'', Str ''shelbyville'',
            Num 800, Num 39.4, Num (- 88.8), Str ''django'', Null, Str ''hs4Tq9Zx'',
            Str ''bo@example.org plumber django'']] \<and>
   flatten_data sample_tables =
     Inr \<lparr>columns = [(''id'', NumberT), (''place_id'', NumberT), (''emails'', ObjectT),
                     (''title'', ObjectT), (''created_at'', DatetimeT),
                     (''display_name'', ObjectT), (''pop_estimate_2022'', NumberT),
                     (''lat'', NumberT), (''long'', NumberT), (''tech_names'', ObjectT),
                     (''sfdc_id'', ObjectT), (''hubspot_id'', ObjectT)],
          rows = [[Num 1, Num 1, Str ''ana@example.org'', Str ''Senior Engineer'',
                   Stamp 1705311000000000000, Str ''Springfield'', Num 1200, Num 39.8,
                   Num (- 89.6), Lst [Str ''React'', Str ''Node'', Str ''Vue''],
                   Str ''00A1B2C3D4E5'', Null],
                  [Num 2, Num 2, Str ''bo@example.org'', Str ''Plumber'', Null,
                   Str ''Shelbyville'', Num 800, Num 39.4, Num (- 88.8),
                   Lst [Str ''Django''], Null, Str ''hs4Tq9Zx''],
                  [Num 3, Num 9, Str ''cy@example.org'', Null, Null, Null, Null, Null, Null,
                   Null, Null, Null]]\<rparr>"
  by code_simp

end
